theory Spec2Isabelle
  imports Main
begin

section \<open>Platform values\<close>

text \<open>
  A Node \<open>Buffer\<close> is a byte string. An Isabelle \<open>char\<close> is one byte, so a buffer is a
  \<open>char list\<close>, and a JavaScript string is identified with its UTF-8 bytes:
  \<open>Buffer.from(str)\<close> and \<open>buf.toString()\<close> are then the identity (exact on ASCII text; the
  replacement of invalid UTF-8 by \<open>toString\<close> is not followed).
\<close>

type_synonym buffer = string

definition Buffer_from :: "string \<Rightarrow> buffer" where
  "Buffer_from str = str"

definition toString :: "buffer \<Rightarrow> string" where
  "toString buf = buf"

text \<open>A \<open>CryptoKey\<close> of the raw AES format is given by its exported bytes.\<close>

datatype CryptoKey = CryptoKey (raw: buffer)

text \<open>The values \<open>JSON.parse\<close> returns and \<open>JSON.stringify\<close> prints.\<close>

datatype json =
    JNull
  | JBool bool
  | JNumber int
  | JString string
  | JArray "json list"
  | JObject "(string \<times> json) list"

text \<open>
  Errors, one constructor per throw site of the library; a rejection that comes from the
  platform or from a collaborator (WebCrypto, \<open>JSON\<close>, eciesjs, the file tree encoder) is
  \<open>External\<close> with the name the collaborator gave it.
\<close>

datatype error =
    InvalidSourceString
  | SignerNotEnabled string string
  | TypeError
  | External string

text \<open>
  A \<open>File\<close> the code builds, by the three arguments of \<open>new File(fileBits, fileName,
  options)\<close>; \<open>fileName = None\<close> is \<open>undefined\<close>. The bytes of the file are the
  concatenation of \<open>fileBits\<close>.
\<close>

record newFile =
  fileBits :: "buffer list"
  fileName :: "json option"
  options :: json

text \<open>
  What the code takes from its surroundings and this development does not look into:
  the AES-GCM primitives and the key import of \<open>webcrypto.subtle\<close>, \<open>JSON\<close>, the clock,
  the hash helper \<open>hashAndHex\<close> of \<open>@/utils/hash\<close>, the \<open>decrypt\<close> of eciesjs, and the
  \<open>File\<close> constructor called on options that were parsed from a buffer (\<open>File_new\<close>: it
  validates them, and rejects for instance an \<open>endings\<close> it does not know). The cipher,
  the key import, the parser, eciesjs and that constructor may reject, \<open>Inl\<close> carrying
  the name of the rejection; the printer, the clock and the hash are taken to return.
\<close>

record runtime =
  subtle_encrypt :: "CryptoKey \<Rightarrow> buffer \<Rightarrow> buffer \<Rightarrow> string + buffer"
  subtle_decrypt :: "CryptoKey \<Rightarrow> buffer \<Rightarrow> buffer \<Rightarrow> string + buffer"
  subtle_importKey :: "buffer \<Rightarrow> string + CryptoKey"
  JSON_stringify :: "json \<Rightarrow> string"
  JSON_parse :: "string \<Rightarrow> string + json"
  hashAndHex :: "string \<Rightarrow> string"
  Date_now :: nat
  ecies_decrypt :: "string \<Rightarrow> buffer \<Rightarrow> string + buffer"
  File_new :: "buffer list \<Rightarrow> json option \<Rightarrow> json \<Rightarrow> string + newFile"

section \<open>Strings and numbers of JavaScript\<close>

text \<open>
  \<open>String.prototype.toLowerCase\<close> on the ASCII letters. On other characters the real
  function may change bytes, but it never produces a letter of \<open>encrypt\<close> from a
  character that is not that letter in upper or lower case, so the comparison with
  \<open>'encrypt'\<close> in \<open>aesCrypt\<close> is decided by this function.
\<close>

definition toLowerCase_char :: "char \<Rightarrow> char" where
  "toLowerCase_char c =
     (case map_of (zip ''ABCDEFGHIJKLMNOPQRSTUVWXYZ'' ''abcdefghijklmnopqrstuvwxyz'') c of
        Some l \<Rightarrow> l
      | None \<Rightarrow> c)"

definition toLowerCase :: "string \<Rightarrow> string" where
  "toLowerCase str = map toLowerCase_char str"

text \<open>\<open>Number.prototype.toString\<close> of a non-negative integer: its decimal digits.\<close>

function toString_nat :: "nat \<Rightarrow> string" where
  "toString_nat n =
     (if n < 10 then [''0123456789'' ! n]
      else toString_nat (n div 10) @ [''0123456789'' ! (n mod 10)])"
  by pat_completeness auto
termination
  by (relation "measure id") auto

declare toString_nat.simps [simp del]

definition padStart :: "nat \<Rightarrow> char \<Rightarrow> string \<Rightarrow> string" where
  "padStart targetLength padChar str = replicate (targetLength - length str) padChar @ str"

text \<open>\<open>String.prototype.indexOf\<close> and \<open>split\<close> for a separator of one character.\<close>

fun indexOf :: "string \<Rightarrow> char \<Rightarrow> int" where
  "indexOf [] sep = - 1"
| "indexOf (c # cs) sep =
     (if c = sep then 0 else (let r = indexOf cs sep in if r < 0 then - 1 else r + 1))"

fun split :: "char \<Rightarrow> string \<Rightarrow> string list" where
  "split sep [] = [[]]"
| "split sep (c # cs) =
     (if c = sep then [] # split sep cs
      else (case split sep cs of p # ps \<Rightarrow> (c # p) # ps | [] \<Rightarrow> [[c]]))"

text \<open>Reading \<open>parts[i]\<close>: \<open>None\<close> is \<open>undefined\<close>.\<close>

definition at_index :: "'a list \<Rightarrow> nat \<Rightarrow> 'a option" where
  "at_index xs i = (if i < length xs then Some (xs ! i) else None)"

text \<open>
  A JavaScript number as far as the code computes with it: an integer or \<open>NaN\<close>.
\<close>

datatype jsnum = NaN | Num int

fun js_add :: "jsnum \<Rightarrow> jsnum \<Rightarrow> jsnum" where
  "js_add (Num a) (Num b) = Num (a + b)"
| "js_add _ _ = NaN"

fun js_less :: "jsnum \<Rightarrow> jsnum \<Rightarrow> bool" where
  "js_less (Num a) (Num b) = (a < b)"
| "js_less _ _ = False"

definition digitVal :: "char \<Rightarrow> nat option" where
  "digitVal c =
     (let n = (of_char c :: nat) in
      if 48 \<le> n \<and> n \<le> 57 then Some (n - 48)
      else if 97 \<le> n \<and> n \<le> 102 then Some (n - 87)
      else if 65 \<le> n \<and> n \<le> 70 then Some (n - 55)
      else None)"

fun readRadix :: "nat \<Rightarrow> string \<Rightarrow> nat \<Rightarrow> nat option" where
  "readRadix b [] acc = Some acc"
| "readRadix b (c # cs) acc =
     (case digitVal c of
        Some d \<Rightarrow> if d < b then readRadix b cs (acc * b + d) else None
      | None \<Rightarrow> None)"

definition readDigits :: "nat \<Rightarrow> string \<Rightarrow> nat option" where
  "readDigits b s = (if s = [] then None else readRadix b s 0)"

definition isWhiteSpace :: "char \<Rightarrow> bool" where
  "isWhiteSpace c = (c \<in> set [CHR 0x09, CHR 0x0A, CHR 0x0B, CHR 0x0C, CHR 0x0D, CHR 0x20])"

definition trim :: "string \<Rightarrow> string" where
  "trim s = rev (dropWhile isWhiteSpace (rev (dropWhile isWhiteSpace s)))"

definition nonDecimalLiteral :: "string \<Rightarrow> nat option" where
  "nonDecimalLiteral s =
     (case s of
        z # x # ds \<Rightarrow>
          if z \<noteq> CHR ''0'' then None
          else if x = CHR ''x'' \<or> x = CHR ''X'' then readDigits 16 ds
          else if x = CHR ''o'' \<or> x = CHR ''O'' then readDigits 8 ds
          else if x = CHR ''b'' \<or> x = CHR ''B'' then readDigits 2 ds
          else None
      | _ \<Rightarrow> None)"

definition signedDigits :: "string \<Rightarrow> int option" where
  "signedDigits s =
     (case s of
        [] \<Rightarrow> None
      | c # ds \<Rightarrow>
          if c = CHR ''-'' then map_option (\<lambda>n. - int n) (readDigits 10 ds)
          else if c = CHR ''+'' then map_option int (readDigits 10 ds)
          else map_option int (readDigits 10 s))"

definition isDigit :: "char \<Rightarrow> bool" where
  "isDigit c = (c \<in> set ''0123456789'')"

text \<open>
  The decimal literals of StringToNumber that are not a run of digits with a sign:
  \<open>Infinity\<close>, or digits with a fraction or an exponent, with an optional sign.
\<close>

definition exponentPart :: "string \<Rightarrow> bool" where
  "exponentPart r =
     (case r of
        [] \<Rightarrow> True
      | e # ds \<Rightarrow>
          (e = CHR ''e'' \<or> e = CHR ''E'')
          \<and> (let unsigned =
                  (case ds of
                     [] \<Rightarrow> []
                   | sign # rest \<Rightarrow> if sign = CHR ''+'' \<or> sign = CHR ''-'' then rest else ds)
               in unsigned \<noteq> [] \<and> list_all isDigit unsigned))"

definition unsignedDecimalLiteral :: "string \<Rightarrow> bool" where
  "unsignedDecimalLiteral t =
     (t = ''Infinity''
      \<or> (let whole = takeWhile isDigit t; r = dropWhile isDigit t in
          case r of
            [] \<Rightarrow> whole \<noteq> []
          | c # r2 \<Rightarrow>
              if c = CHR ''.''
              then (whole \<noteq> [] \<or> takeWhile isDigit r2 \<noteq> [])
                   \<and> exponentPart (dropWhile isDigit r2)
              else whole \<noteq> [] \<and> exponentPart r))"

definition decimalLiteral :: "string \<Rightarrow> bool" where
  "decimalLiteral s =
     (case s of
        [] \<Rightarrow> False
      | c # t \<Rightarrow>
          if c = CHR ''+'' \<or> c = CHR ''-'' then unsignedDecimalLiteral t
          else unsignedDecimalLiteral s)"

text \<open>
  \<open>Number(str)\<close>, the StringToNumber of ECMAScript, on the part of its domain the model
  follows: ASCII text that, trimmed of white space, is empty (0), a binary, octal or
  hexadecimal literal, or a run of decimal digits with an optional sign; any other ASCII
  text that is no decimal literal is \<open>NaN\<close>. The result \<open>None\<close> marks the texts left out:
  the decimal literals with a fraction, an exponent or \<open>Infinity\<close> (their values are
  floating point numbers), the texts with a byte outside ASCII (Unicode white space) and
  the integers beyond \<open>2 ^ 53\<close>, which a JavaScript number rounds.
\<close>

definition exactly :: "int \<Rightarrow> jsnum option" where
  "exactly z = (if \<bar>z\<bar> \<le> 2 ^ 53 then Some (Num z) else None)"

definition Number :: "string \<Rightarrow> jsnum option" where
  "Number str =
     (if list_ex (\<lambda>c. 128 \<le> (of_char c :: nat)) str then None
      else
        let s = trim str in
        if s = [] then Some (Num 0)
        else (case nonDecimalLiteral s of
                Some n \<Rightarrow> exactly (int n)
              | None \<Rightarrow>
                  (case signedDigits s of
                     Some z \<Rightarrow> exactly z
                   | None \<Rightarrow> if decimalLiteral s then None else Some NaN)))"

section \<open>Buffers and files\<close>

text \<open>\<open>Buffer.prototype.slice\<close> of Node, with its \<open>adjustOffset\<close>.\<close>

definition adjustOffset :: "jsnum \<Rightarrow> int \<Rightarrow> int" where
  "adjustOffset offset len =
     (case offset of
        NaN \<Rightarrow> 0
      | Num n \<Rightarrow>
          if n = 0 then 0
          else if n < 0 then (if n + len > 0 then n + len else 0)
          else if n < len then n
          else len)"

definition Buffer_slice :: "buffer \<Rightarrow> jsnum \<Rightarrow> jsnum \<Rightarrow> buffer" where
  "Buffer_slice buf start stop =
     (let srcLength = int (length buf);
          s = adjustOffset start srcLength;
          e = adjustOffset stop srcLength;
          newLength = (if e > s then e - s else 0)
      in take (nat newLength) (drop (nat s) buf))"

text \<open>
  \<open>Buffer.from(str, 'hex')\<close>: pairs of hexadecimal digits, cut at the first pair that is
  not one and at a single trailing digit.
\<close>

fun Buffer_from_hex :: "string \<Rightarrow> buffer" where
  "Buffer_from_hex (a # b # rest) =
     (case (digitVal a, digitVal b) of
        (Some x, Some y) \<Rightarrow> char_of (16 * x + y) # Buffer_from_hex rest
      | _ \<Rightarrow> [])"
| "Buffer_from_hex _ = []"

text \<open>
  In \<open>convertToEncryptedFile\<close> the options of \<open>new File\<close> are the literal
  \<open>{ type: 'text/plain' }\<close>, which the constructor accepts, so the file built there is
  given by its arguments.

  A \<open>File\<close> the caller hands in: its attributes and its bytes; \<open>size\<close> is the number of
  bytes and \<open>slice\<close> is \<open>Blob.prototype.slice\<close> on offsets within the range the code uses.
\<close>

record File =
  fname :: string
  lastModified :: int
  ftype :: string
  content :: buffer

definition fsize :: "File \<Rightarrow> nat" where
  "fsize f = length (content f)"

definition Blob_slice :: "File \<Rightarrow> nat \<Rightarrow> nat \<Rightarrow> buffer" where
  "Blob_slice f start stop = take (stop - start) (drop start (content f))"

section \<open>The symmetric cipher wrapper\<close>

datatype subtle_call =
    Encrypt CryptoKey buffer buffer
  | Decrypt CryptoKey buffer buffer

text \<open>
  \<open>aesCrypt\<close> with the calls it makes to \<open>subtle\<close>: the list of calls and the settled
  promise. \<open>mode = None\<close> is a nullish mode (the code reads \<open>mode?.toLowerCase()\<close>).
\<close>

definition aesCrypt_traced ::
  "runtime \<Rightarrow> buffer \<Rightarrow> CryptoKey \<Rightarrow> buffer \<Rightarrow> string option
    \<Rightarrow> subtle_call list \<times> (error + buffer)" where
  "aesCrypt_traced rt data k iv mode =
     (if length data < 1 then ([], Inr [])
      else if map_option toLowerCase mode = Some ''encrypt'' then
        ([Encrypt k iv data],
         (case subtle_encrypt rt k iv data of
            Inl err \<Rightarrow> Inl (External err)
          | Inr res \<Rightarrow> Inr res))
      else
        ([Decrypt k iv data],
         (case subtle_decrypt rt k iv data of
            Inl err \<Rightarrow> Inl (External err)
          | Inr res \<Rightarrow> Inr res)))"

definition aesCrypt ::
  "runtime \<Rightarrow> buffer \<Rightarrow> CryptoKey \<Rightarrow> buffer \<Rightarrow> string option \<Rightarrow> error + buffer" where
  "aesCrypt rt data k iv mode = snd (aesCrypt_traced rt data k iv mode)"

text \<open>
  What the code relies on from AES-GCM with the default 128-bit tag: decryption under
  the key and iv of the encryption gives the plaintext back, and a ciphertext is the
  length of its plaintext plus the 16 bytes of the tag.
\<close>

definition aes_gcm :: "runtime \<Rightarrow> bool" where
  "aes_gcm rt \<longleftrightarrow>
     (\<forall>k iv p c. subtle_encrypt rt k iv p = Inr c
        \<longrightarrow> subtle_decrypt rt k iv c = Inr p \<and> length c = length p + 16)"

section \<open>The key-wrapping protocol\<close>

record walletProperties =
  jackalAccount_address :: string
  keyPair :: string

text \<open>\<open>traits\<close> is only tested for being set.\<close>

record wallet =
  properties :: "walletProperties option"
  traits :: "unit option"

record IAesBundle =
  aes_iv :: buffer
  aes_key :: CryptoKey

definition importJackalKey :: "runtime \<Rightarrow> buffer \<Rightarrow> error + CryptoKey" where
  "importJackalKey rt rawExport =
     (case subtle_importKey rt rawExport of
        Inl err \<Rightarrow> Inl (External err)
      | Inr k \<Rightarrow> Inr k)"

definition asymmetricDecrypt :: "runtime \<Rightarrow> wallet \<Rightarrow> string \<Rightarrow> error + buffer" where
  "asymmetricDecrypt rt w toDecrypt =
     (case properties w of
        None \<Rightarrow> Inl (SignerNotEnabled ''WalletHandler'' ''asymmetricDecrypt'')
      | Some p \<Rightarrow>
          (case ecies_decrypt rt (keyPair p) (Buffer_from_hex toDecrypt) of
             Inl err \<Rightarrow> Inl (External err)
           | Inr res \<Rightarrow> Inr res))"

text \<open>The two decryptions and the import shared by both readings of the wrapped string.\<close>

definition unwrapParts :: "runtime \<Rightarrow> wallet \<Rightarrow> string \<Rightarrow> string \<Rightarrow> error + IAesBundle" where
  "unwrapParts rt w p0 p1 =
     (case asymmetricDecrypt rt w p0 of
        Inl err \<Rightarrow> Inl err
      | Inr theIv \<Rightarrow>
          (case asymmetricDecrypt rt w p1 of
             Inl err \<Rightarrow> Inl err
           | Inr rawKey \<Rightarrow>
               (case importJackalKey rt rawKey of
                  Inl err \<Rightarrow> Inl err
                | Inr k \<Rightarrow> Inr \<lparr>aes_iv = theIv, aes_key = k\<rparr>)))"

definition stringToAes :: "runtime \<Rightarrow> wallet \<Rightarrow> string \<Rightarrow> error + IAesBundle" where
  "stringToAes rt w source =
     (if indexOf source (CHR ''|'') < 0 then Inl InvalidSourceString
      else
        let parts = split (CHR ''|'') source in
        (case (at_index parts 0, at_index parts 1) of
           (Some p0, Some p1) \<Rightarrow> unwrapParts rt w p0 p1
         | _ \<Rightarrow> Inl TypeError))"

text \<open>
  The specification's \<open>unwrapFromSelf\<close>, written from its words: no delimiter is a
  malformed grant; otherwise the string is cut at the first delimiter and each half is
  decrypted on its own.
\<close>

definition unwrapFromSelf :: "runtime \<Rightarrow> wallet \<Rightarrow> string \<Rightarrow> error + IAesBundle" where
  "unwrapFromSelf rt w wrapped =
     (if CHR ''|'' \<notin> set wrapped then Inl InvalidSourceString
      else unwrapParts rt w
             (takeWhile (\<lambda>c. c \<noteq> CHR ''|'') wrapped)
             (tl (dropWhile (\<lambda>c. c \<noteq> CHR ''|'') wrapped)))"

section \<open>The chunked envelope\<close>

definition chunkSize :: nat where
  "chunkSize = 32 * 1024 ^ 2"

text \<open>The header the encoder writes in front of a ciphertext, from the plaintext it encrypted.\<close>

definition lengthHeader :: "buffer \<Rightarrow> buffer" where
  "lengthHeader plain = Buffer_from (padStart 8 (CHR ''0'') (toString_nat (length plain + 8)))"

text \<open>
  The \<open>for\<close> loop of \<open>convertToEncryptedFile\<close>: \<open>i\<close> is the offset of the next chunk and
  \<open>encryptedArray\<close> what has been pushed so far. A rejected encryption ends the function.
\<close>

function encodeLoop ::
  "runtime \<Rightarrow> File \<Rightarrow> CryptoKey \<Rightarrow> buffer \<Rightarrow> nat \<Rightarrow> buffer list \<Rightarrow> error + buffer list" where
  "encodeLoop rt workingFile k iv i encryptedArray =
     (if i < fsize workingFile then
        (let bufChunk = Blob_slice workingFile i (i + chunkSize) in
         case aesCrypt rt bufChunk k iv (Some ''encrypt'') of
           Inl err \<Rightarrow> Inl err
         | Inr encrypted \<Rightarrow>
             encodeLoop rt workingFile k iv (i + chunkSize)
               (encryptedArray @ [lengthHeader bufChunk, encrypted]))
      else Inr encryptedArray)"
  by pat_completeness auto
termination
  by (relation "measure (\<lambda>(rt, workingFile, k, iv, i, encryptedArray). fsize workingFile - i)")
     (auto simp: chunkSize_def)

declare encodeLoop.simps [simp del]

definition fileDetails :: "File \<Rightarrow> json" where
  "fileDetails workingFile =
     JObject [(''name'', JString (fname workingFile)),
              (''lastModified'', JNumber (lastModified workingFile)),
              (''type'', JString (ftype workingFile)),
              (''size'', JNumber (int (fsize workingFile)))]"

definition convertToEncryptedFile ::
  "runtime \<Rightarrow> File \<Rightarrow> CryptoKey \<Rightarrow> buffer \<Rightarrow> error + newFile" where
  "convertToEncryptedFile rt workingFile k iv =
     (let detailsBuf = Buffer_from (JSON_stringify rt (fileDetails workingFile)) in
      case aesCrypt rt detailsBuf k iv (Some ''encrypt'') of
        Inl err \<Rightarrow> Inl err
      | Inr encryptedDetails \<Rightarrow>
          (case encodeLoop rt workingFile k iv 0 [lengthHeader detailsBuf, encryptedDetails] of
             Inl err \<Rightarrow> Inl err
           | Inr encryptedArray \<Rightarrow>
               Inr \<lparr>fileBits = encryptedArray,
                    fileName = Some (JString
                      (hashAndHex rt (fname workingFile @ toString_nat (Date_now rt)) @ ''.jkl'')),
                    options = JObject [(''type'', JString ''text/plain'')]\<rparr>))"

text \<open>
  How a call ends: it returns, it throws, or it leaves the part of JavaScript this
  development follows (\<open>OutsideModel\<close>: a length header that \<open>Number\<close> reads as a value
  other than an integer or \<open>NaN\<close>). A call that never ends has no completion at all.
\<close>

datatype 'a completion = Returns 'a | Throws error | OutsideModel

text \<open>
  One pass through the body of the \<open>for\<close> loop of \<open>convertFromEncryptedFile\<close>, from the
  test \<open>i < source.length\<close> to \<open>i = last\<close>: it goes on with new values of \<open>i\<close>,
  \<open>detailsBuf\<close> and \<open>bufParts\<close>, or it ends the loop. The promise of \<open>aesCrypt\<close> is awaited
  and its value dropped, as in the source; what is kept is \<open>segment\<close>.
\<close>

datatype decodeProgress =
    Next jsnum buffer "buffer list"
  | Finished "(buffer \<times> buffer list) completion"

definition decodeIteration ::
  "runtime \<Rightarrow> buffer \<Rightarrow> CryptoKey \<Rightarrow> buffer \<Rightarrow> jsnum \<Rightarrow> buffer \<Rightarrow> buffer list
    \<Rightarrow> decodeProgress" where
  "decodeIteration rt source k iv i detailsBuf bufParts =
     (if js_less i (Num (int (length source))) then
        (let offset = js_add i (Num 8) in
         case Number (toString (Buffer_slice source i offset)) of
           None \<Rightarrow> Finished OutsideModel
         | Some segSize \<Rightarrow>
             (let last = js_add offset segSize;
                  segment = Buffer_slice source offset last
              in case aesCrypt rt segment k iv (Some ''decrypt'') of
                   Inl err \<Rightarrow> Finished (Throws err)
                 | Inr decrypted \<Rightarrow>
                     if i = Num 0 then Next last segment bufParts
                     else Next last detailsBuf (bufParts @ [segment])))
      else Finished (Returns (detailsBuf, bufParts)))"

text \<open>
  The loop. Nothing bounds the number of its passes, so it is a partial function:
  \<open>None\<close> is a loop that never ends.
\<close>

partial_function (option) decodeLoop ::
  "runtime \<Rightarrow> buffer \<Rightarrow> CryptoKey \<Rightarrow> buffer \<Rightarrow> jsnum \<Rightarrow> buffer \<Rightarrow> buffer list
    \<Rightarrow> (buffer \<times> buffer list) completion option" where
  "decodeLoop rt source k iv i detailsBuf bufParts =
     (case decodeIteration rt source k iv i detailsBuf bufParts of
        Next i' detailsBuf' bufParts' \<Rightarrow> decodeLoop rt source k iv i' detailsBuf' bufParts'
      | Finished r \<Rightarrow> Some r)"

text \<open>Reading \<open>details.name\<close> on a parsed value: \<open>null\<close> throws, a missing property is \<open>undefined\<close>.\<close>

definition details_name :: "json \<Rightarrow> error + json option" where
  "details_name details =
     (case details of
        JNull \<Rightarrow> Inl TypeError
      | JObject members \<Rightarrow> Inr (map_of members ''name'')
      | _ \<Rightarrow> Inr None)"

text \<open>
  What follows the loop: the metadata is parsed, its \<open>name\<close> is read, and the \<open>File\<close>
  constructor is called with the parsed value as its options.
\<close>

definition afterLoop :: "runtime \<Rightarrow> buffer \<Rightarrow> buffer list \<Rightarrow> newFile completion" where
  "afterLoop rt detailsBuf bufParts =
     (case JSON_parse rt (toString detailsBuf) of
        Inl err \<Rightarrow> Throws (External err)
      | Inr details \<Rightarrow>
          (case details_name details of
             Inl err \<Rightarrow> Throws err
           | Inr nm \<Rightarrow>
               (case File_new rt bufParts nm details of
                  Inl err \<Rightarrow> Throws (External err)
                | Inr built \<Rightarrow> Returns built)))"

definition convertFromEncryptedFile ::
  "runtime \<Rightarrow> buffer \<Rightarrow> CryptoKey \<Rightarrow> buffer \<Rightarrow> newFile completion option" where
  "convertFromEncryptedFile rt source k iv =
     (case decodeLoop rt source k iv (Num 0) (Buffer_from []) [] of
        None \<Rightarrow> None
      | Some OutsideModel \<Rightarrow> Some OutsideModel
      | Some (Throws err) \<Rightarrow> Some (Throws err)
      | Some (Returns (detailsBuf, bufParts)) \<Rightarrow> Some (afterLoop rt detailsBuf bufParts))"

section \<open>The folder node\<close>

text \<open>
  \<open>IFolderFileFrame\<close>, the state of a \<open>FolderHandler\<close>. \<open>fileChildren\<close> is an object used
  as a dictionary from file name to \<open>IFileMeta\<close> (the type \<open>'m\<close>, which the handler
  never inspects).
\<close>

record 'm IFolderFileFrame =
  whoAmI :: string
  whereAmI :: string
  whoOwnsMe :: string
  dirChildren :: "string list"
  fileChildren :: "string \<rightharpoonup> 'm"

record IChildDirInfo =
  myName :: string
  myParent :: string
  myOwner :: string

text \<open>
  The helpers of \<open>@/utils\<close> the handler calls: \<open>stripper\<close> of \<open>@/utils/misc\<close> and the
  encoder \<open>saveFileTreeEntry\<close> of \<open>@/utils/compression\<close>, which builds the change record
  (\<open>EncodeObject\<close>, the type \<open>'eo\<close>) and may reject.
\<close>

record ('m, 'eo) utils =
  stripper :: "string \<Rightarrow> string"
  saveFileTreeEntry ::
    "string \<Rightarrow> string \<Rightarrow> string \<Rightarrow> 'm IFolderFileFrame \<Rightarrow> wallet \<Rightarrow> string + 'eo"

definition getJackalAddress :: "wallet \<Rightarrow> error + string" where
  "getJackalAddress w =
     (case properties w of
        None \<Rightarrow> Inl (SignerNotEnabled ''WalletHandler'' ''getJackalAddress'')
      | Some p \<Rightarrow> Inr (jackalAccount_address p))"

definition trackNewFolder :: "('m, 'eo) utils \<Rightarrow> IChildDirInfo \<Rightarrow> 'm IFolderFileFrame" where
  "trackNewFolder u dirInfo =
     \<lparr>whoAmI = stripper u (myName dirInfo),
      whereAmI = myParent dirInfo,
      whoOwnsMe = myOwner dirInfo,
      dirChildren = [],
      fileChildren = Map.empty\<rparr>"

definition makeChildDirInfo ::
  "('m, 'eo) utils \<Rightarrow> 'm IFolderFileFrame \<Rightarrow> string \<Rightarrow> IChildDirInfo" where
  "makeChildDirInfo u folderDetails childName =
     \<lparr>myName = stripper u childName,
      myParent = whereAmI folderDetails @ ''/'' @ whoAmI folderDetails,
      myOwner = whoOwnsMe folderDetails\<rparr>"

definition getForFiletree ::
  "('m, 'eo) utils \<Rightarrow> 'm IFolderFileFrame \<Rightarrow> wallet \<Rightarrow> error + 'eo" where
  "getForFiletree u folderDetails walletRef =
     (case traits walletRef of
        None \<Rightarrow> Inl (SignerNotEnabled ''FolderHandler'' ''getForFiletree'')
      | Some t \<Rightarrow>
          (case getJackalAddress walletRef of
             Inl err \<Rightarrow> Inl err
           | Inr address \<Rightarrow>
               (case saveFileTreeEntry u address (whereAmI folderDetails) (whoAmI folderDetails)
                       folderDetails walletRef of
                  Inl err \<Rightarrow> Inl (External err)
                | Inr encoded \<Rightarrow> Inr encoded)))"

text \<open>
  \<open>Promise.all\<close> over the mapped calls: all values in order, or a rejection (of several
  rejections the model reports the one of the earliest element).
\<close>

fun Promise_all :: "(error + 'a) list \<Rightarrow> error + 'a list" where
  "Promise_all [] = Inr []"
| "Promise_all (Inl err # ps) = Inl err"
| "Promise_all (Inr v # ps) = (case Promise_all ps of Inl err \<Rightarrow> Inl err | Inr vs \<Rightarrow> Inr (v # vs))"

text \<open>\<open>[...new Set(xs)]\<close>: the elements of \<open>xs\<close> in the order of their first occurrence.\<close>

definition fromSet :: "'a list \<Rightarrow> 'a list" where
  "fromSet xs = foldl (\<lambda>seen x. if x \<in> set seen then seen else seen @ [x]) [] xs"

text \<open>The child handlers \<open>addChildDirs\<close> constructs for the names it found to be new.\<close>

definition newChildren ::
  "('m, 'eo) utils \<Rightarrow> 'm IFolderFileFrame \<Rightarrow> string list \<Rightarrow> 'm IFolderFileFrame list" where
  "newChildren u folderDetails childNames =
     map (\<lambda>name. trackNewFolder u (makeChildDirInfo u folderDetails name))
       (filter (\<lambda>name. name \<notin> set (dirChildren folderDetails)) childNames)"

text \<open>
  The mutating methods take the handler's \<open>folderDetails\<close> and give it back as the call
  leaves it, next to the settled promise (a rejection after the assignment leaves the
  assignment in place).
\<close>

definition addChildDirs ::
  "('m, 'eo) utils \<Rightarrow> 'm IFolderFileFrame \<Rightarrow> string list \<Rightarrow> wallet
    \<Rightarrow> 'm IFolderFileFrame \<times> (error + 'eo list \<times> string list)" where
  "addChildDirs u folderDetails childNames walletRef =
     (let existing = filter (\<lambda>name. name \<in> set (dirChildren folderDetails)) childNames;
          more = filter (\<lambda>name. name \<notin> set (dirChildren folderDetails)) childNames;
          handlers = newChildren u folderDetails childNames
      in case Promise_all (map (\<lambda>handler. getForFiletree u handler walletRef) handlers) of
           Inl err \<Rightarrow> (folderDetails, Inl err)
         | Inr encoded \<Rightarrow>
             if length more > 0 then
               (let updated = folderDetails
                      \<lparr>dirChildren := fromSet (dirChildren folderDetails @ more)\<rparr>
                in case getForFiletree u updated walletRef of
                     Inl err \<Rightarrow> (updated, Inl err)
                   | Inr own \<Rightarrow> (updated, Inr (encoded @ [own], existing)))
             else (folderDetails, Inr (encoded, existing)))"

definition addChildFileReferences ::
  "('m, 'eo) utils \<Rightarrow> 'm IFolderFileFrame \<Rightarrow> (string \<rightharpoonup> 'm) \<Rightarrow> wallet
    \<Rightarrow> 'm IFolderFileFrame \<times> (error + 'eo)" where
  "addChildFileReferences u folderDetails newFiles walletRef =
     (let updated = folderDetails\<lparr>fileChildren := fileChildren folderDetails ++ newFiles\<rparr>
      in (updated, getForFiletree u updated walletRef))"

definition removeChildDirReferences ::
  "('m, 'eo) utils \<Rightarrow> 'm IFolderFileFrame \<Rightarrow> string list \<Rightarrow> wallet
    \<Rightarrow> 'm IFolderFileFrame \<times> (error + 'eo)" where
  "removeChildDirReferences u folderDetails toRemove walletRef =
     (let updated = folderDetails
            \<lparr>dirChildren := filter (\<lambda>saved. saved \<notin> set toRemove) (dirChildren folderDetails)\<rparr>
      in (updated, getForFiletree u updated walletRef))"

text \<open>The loop of \<open>delete this.folderDetails.fileChildren[toRemove[i]]\<close>.\<close>

fun deleteAll :: "string list \<Rightarrow> (string \<rightharpoonup> 'm) \<Rightarrow> (string \<rightharpoonup> 'm)" where
  "deleteAll [] children = children"
| "deleteAll (x # xs) children = deleteAll xs (children(x := None))"

definition removeChildFileReferences ::
  "('m, 'eo) utils \<Rightarrow> 'm IFolderFileFrame \<Rightarrow> string list \<Rightarrow> wallet
    \<Rightarrow> 'm IFolderFileFrame \<times> (error + 'eo)" where
  "removeChildFileReferences u folderDetails toRemove walletRef =
     (let updated = folderDetails\<lparr>fileChildren := deleteAll toRemove (fileChildren folderDetails)\<rparr>
      in (updated, getForFiletree u updated walletRef))"

definition removeChildDirAndFileReferences ::
  "('m, 'eo) utils \<Rightarrow> 'm IFolderFileFrame \<Rightarrow> string list \<Rightarrow> string list \<Rightarrow> wallet
    \<Rightarrow> 'm IFolderFileFrame \<times> (error + 'eo)" where
  "removeChildDirAndFileReferences u folderDetails dirs files walletRef =
     (let updated = folderDetails
            \<lparr>dirChildren := filter (\<lambda>saved. saved \<notin> set dirs) (dirChildren folderDetails),
             fileChildren := deleteAll files (fileChildren folderDetails)\<rparr>
      in (updated, getForFiletree u updated walletRef))"

section \<open>A runtime to evaluate with\<close>

text \<open>
  Concrete surroundings on which the definitions can be run. The cipher has the shape
  of AES-GCM and none of its strength: a ciphertext is the reversed plaintext followed
  by a 16-byte tag made of the iv and the key, and decryption rejects a ciphertext
  shorter than the tag or with another tag.
\<close>

definition demo_tag :: "CryptoKey \<Rightarrow> buffer \<Rightarrow> buffer" where
  "demo_tag k iv = take 16 (iv @ raw k @ replicate 16 (CHR ''#''))"

definition demo_encrypt :: "CryptoKey \<Rightarrow> buffer \<Rightarrow> buffer \<Rightarrow> string + buffer" where
  "demo_encrypt k iv p = Inr (rev p @ demo_tag k iv)"

definition demo_decrypt :: "CryptoKey \<Rightarrow> buffer \<Rightarrow> buffer \<Rightarrow> string + buffer" where
  "demo_decrypt k iv c =
     (if length c < 16 \<or> drop (length c - 16) c \<noteq> demo_tag k iv then Inl ''OperationError''
      else Inr (rev (take (length c - 16) c)))"

definition demo_importKey :: "buffer \<Rightarrow> string + CryptoKey" where
  "demo_importKey rawExport =
     (if length rawExport \<in> {16, 24, 32} then Inr (CryptoKey rawExport) else Inl ''DataError'')"

text \<open>
  \<open>JSON\<close> for flat records of strings and integers without escapes, which is what the
  metadata of a file with a plain name is; the parser rejects every other text.
\<close>

definition quoted :: "string \<Rightarrow> string" where
  "quoted s = CHR 0x22 # s @ [CHR 0x22]"

definition toString_int :: "int \<Rightarrow> string" where
  "toString_int z = (if z < 0 then CHR ''-'' # toString_nat (nat (- z)) else toString_nat (nat z))"

fun join :: "string \<Rightarrow> string list \<Rightarrow> string" where
  "join sep [] = []"
| "join sep [x] = x"
| "join sep (x # y # ys) = x @ sep @ join sep (y # ys)"

definition demo_value :: "json \<Rightarrow> string" where
  "demo_value v =
     (case v of
        JString s \<Rightarrow> quoted s
      | JNumber z \<Rightarrow> toString_int z
      | JBool b \<Rightarrow> (if b then ''true'' else ''false'')
      | _ \<Rightarrow> ''null'')"

definition demo_stringify :: "json \<Rightarrow> string" where
  "demo_stringify v =
     (case v of
        JObject members \<Rightarrow>
          CHR ''{'' # join '','' (map (\<lambda>(key, val). quoted key @ '':'' @ demo_value val) members) @ ''}''
      | _ \<Rightarrow> demo_value v)"

definition unquoted :: "string \<Rightarrow> string option" where
  "unquoted s =
     (if 2 \<le> length s \<and> hd s = CHR 0x22 \<and> last s = CHR 0x22
         \<and> list_all (\<lambda>c. c \<noteq> CHR 0x22 \<and> c \<noteq> CHR 0x5C) (butlast (tl s))
      then Some (butlast (tl s)) else None)"

definition demo_member :: "string \<Rightarrow> (string \<times> json) option" where
  "demo_member m =
     (case split (CHR '':'') m of
        [key, val] \<Rightarrow>
          (case unquoted key of
             None \<Rightarrow> None
           | Some name \<Rightarrow>
               (case unquoted val of
                  Some s \<Rightarrow> Some (name, JString s)
                | None \<Rightarrow> map_option (\<lambda>n. (name, JNumber (int n))) (readDigits 10 val)))
      | _ \<Rightarrow> None)"

definition demo_parse :: "string \<Rightarrow> string + json" where
  "demo_parse text =
     (if 2 \<le> length text \<and> hd text = CHR ''{'' \<and> last text = CHR ''}'' then
        (case those (map demo_member (split (CHR '','') (butlast (tl text)))) of
           Some members \<Rightarrow> Inr (JObject members)
         | None \<Rightarrow> Inl ''SyntaxError'')
      else Inl ''SyntaxError'')"

definition demo_hashAndHex :: "string \<Rightarrow> string" where
  "demo_hashAndHex s = toString_nat (length s)"

definition demo_ecies_decrypt :: "string \<Rightarrow> buffer \<Rightarrow> string + buffer" where
  "demo_ecies_decrypt privateKey msg = (if msg = [] then Inl ''Error'' else Inr (rev msg))"

text \<open>
  The constructor accepts an object or an array as options, unless it carries an
  \<open>endings\<close> other than \<open>transparent\<close> and \<open>native\<close>.
\<close>

definition demo_File :: "buffer list \<Rightarrow> json option \<Rightarrow> json \<Rightarrow> string + newFile" where
  "demo_File bits nm opts =
     (case opts of
        JObject members \<Rightarrow>
          (case map_of members ''endings'' of
             None \<Rightarrow> Inr \<lparr>fileBits = bits, fileName = nm, options = opts\<rparr>
           | Some e \<Rightarrow>
               if e = JString ''transparent'' \<or> e = JString ''native''
               then Inr \<lparr>fileBits = bits, fileName = nm, options = opts\<rparr>
               else Inl ''TypeError'')
      | JArray elements \<Rightarrow> Inr \<lparr>fileBits = bits, fileName = nm, options = opts\<rparr>
      | _ \<Rightarrow> Inl ''TypeError'')"

definition demo_runtime :: runtime where
  "demo_runtime =
     \<lparr>subtle_encrypt = demo_encrypt,
      subtle_decrypt = demo_decrypt,
      subtle_importKey = demo_importKey,
      JSON_stringify = demo_stringify,
      JSON_parse = demo_parse,
      hashAndHex = demo_hashAndHex,
      Date_now = 1700000000000,
      ecies_decrypt = demo_ecies_decrypt,
      File_new = demo_File\<rparr>"

definition demo_key :: CryptoKey where
  "demo_key = CryptoKey ''0123456789abcdef''"

definition demo_iv :: buffer where
  "demo_iv = ''fedcba9876543210''"

definition demo_wallet :: wallet where
  "demo_wallet =
     \<lparr>properties = Some \<lparr>jackalAccount_address = ''jkl1alice'', keyPair = ''c0ffee''\<rparr>,
      traits = Some ()\<rparr>"

text \<open>
  Helpers under which a change record can be read: the encoder returns what it was
  called with (address, parent path, name, child directories of the frame), and
  \<open>stripper\<close> removes the slashes.
\<close>

definition demo_utils :: "(unit, string \<times> string \<times> string \<times> string list) utils" where
  "demo_utils =
     \<lparr>stripper = filter (\<lambda>c. c \<noteq> CHR ''/''),
      saveFileTreeEntry = (\<lambda>address whereTo who frame w.
         Inr (address, whereTo, who, dirChildren frame))\<rparr>"

definition docs :: "unit IFolderFileFrame" where
  "docs =
     \<lparr>whoAmI = ''docs'', whereAmI = ''/home/alice'', whoOwnsMe = ''alice'',
      dirChildren = [], fileChildren = Map.empty\<rparr>"

section \<open>Notions the statements use\<close>

text \<open>A mutation that leaves everything but the two child collections as it was.\<close>

definition onlyChildrenChange :: "'m IFolderFileFrame \<Rightarrow> 'm IFolderFileFrame \<Rightarrow> bool" where
  "onlyChildrenChange before after \<longleftrightarrow>
     after = before\<lparr>dirChildren := dirChildren after, fileChildren := fileChildren after\<rparr>"



text \<open>
  The plaintexts \<open>convertToEncryptedFile\<close> encrypts, in order: the metadata, then the
  chunks of the file from offset \<open>i\<close> on.
\<close>

function chunksFrom :: "File \<Rightarrow> nat \<Rightarrow> buffer list" where
  "chunksFrom workingFile i =
     (if i < fsize workingFile
      then Blob_slice workingFile i (i + chunkSize) # chunksFrom workingFile (i + chunkSize)
      else [])"
  by pat_completeness auto
termination
  by (relation "measure (\<lambda>(workingFile, i). fsize workingFile - i)") (auto simp: chunkSize_def)

declare chunksFrom.simps [simp del]

definition plaintexts :: "runtime \<Rightarrow> File \<Rightarrow> buffer list" where
  "plaintexts rt workingFile =
     Buffer_from (JSON_stringify rt (fileDetails workingFile)) # chunksFrom workingFile 0"

text \<open>The frames of an array of pushed buffers: each header with the buffer after it.\<close>

fun frames :: "buffer list \<Rightarrow> (buffer \<times> buffer) list" where
  "frames (header # ciphertext # rest) = (header, ciphertext) # frames rest"
| "frames _ = []"

fun unframe :: "(buffer \<times> buffer) list \<Rightarrow> buffer list" where
  "unframe [] = []"
| "unframe ((header, ciphertext) # rest) = header # ciphertext # unframe rest"

text \<open>A frame as the encoder makes it from a plaintext.\<close>

definition encodes :: "runtime \<Rightarrow> CryptoKey \<Rightarrow> buffer \<Rightarrow> buffer \<Rightarrow> buffer \<times> buffer \<Rightarrow> bool" where
  "encodes rt k iv plain frame \<longleftrightarrow>
     fst frame = lengthHeader plain \<and> aesCrypt rt plain k iv (Some ''encrypt'') = Inr (snd frame)"

text \<open>
  The frame the encoder writes for a plaintext, and what its header says: the
  ciphertext \<open>aesCrypt\<close> returned, behind the decimal digits of the plaintext's length plus
  8, padded with zeros to 8 characters; \<open>Number\<close> reads the header as that value, and the
  header has 8 bytes exactly when the value has at most 8 digits.
\<close>

definition encodedFrame ::
  "runtime \<Rightarrow> CryptoKey \<Rightarrow> buffer \<Rightarrow> buffer \<Rightarrow> buffer \<times> buffer \<Rightarrow> bool" where
  "encodedFrame rt k iv plain frame \<longleftrightarrow>
     aesCrypt rt plain k iv (Some ''encrypt'') = Inr (snd frame)
     \<and> fst frame = padStart 8 (CHR ''0'') (toString_nat (length plain + 8))
     \<and> Number (toString (fst frame)) = exactly (int (length plain + 8))
     \<and> (length (fst frame) = 8 \<longleftrightarrow> length plain + 8 < 10 ^ 8)"

text \<open>A small file, its metadata as \<open>JSON.stringify\<close> prints it, and its envelope.\<close>

definition demo_file :: File where
  "demo_file = \<lparr>fname = ''a.txt'', lastModified = 5, ftype = ''text/plain'', content = ''hi''\<rparr>"

definition demo_details_text :: string where
  "demo_details_text =
     ''{'' @ quoted ''name'' @ '':'' @ quoted ''a.txt'' @ '','' @ quoted ''lastModified'' @ '':5,''
       @ quoted ''type'' @ '':'' @ quoted ''text/plain'' @ '','' @ quoted ''size'' @ '':2}''"

definition demo_envelope :: "buffer list" where
  "demo_envelope =
     [''00000070'', rev demo_details_text @ ''fedcba9876543210'',
      ''00000010'', ''ihfedcba9876543210'']"

definition demo_encrypted :: newFile where
  "demo_encrypted =
     \<lparr>fileBits = demo_envelope, fileName = Some (JString ''18.jkl''),
      options = JObject [(''type'', JString ''text/plain'')]\<rparr>"

definition empty_file :: File where
  "empty_file = \<lparr>fname = ''e'', lastModified = 0, ftype = '''', content = []\<rparr>"

text \<open>The least number of chunks of \<open>chunkSize\<close> bytes that hold \<open>s\<close> bytes: \<open>s / chunkSize\<close> rounded up.\<close>

definition chunkCount :: "nat \<Rightarrow> nat" where
  "chunkCount s = (s + chunkSize - 1) div chunkSize"

text \<open>
  The values of \<open>i\<close>, \<open>detailsBuf\<close> and \<open>bufParts\<close> with which the loop of
  \<open>convertFromEncryptedFile\<close> comes to its test: those it starts with, and those a pass
  that goes on leaves.
\<close>

inductive visits ::
  "runtime \<Rightarrow> buffer \<Rightarrow> CryptoKey \<Rightarrow> buffer \<Rightarrow> jsnum \<Rightarrow> buffer \<Rightarrow> buffer list \<Rightarrow> bool"
  for rt source k iv where
    start: "visits rt source k iv (Num 0) [] []"
  | pass: "visits rt source k iv i detailsBuf bufParts
           \<Longrightarrow> decodeIteration rt source k iv i detailsBuf bufParts = Next i' detailsBuf' bufParts'
           \<Longrightarrow> visits rt source k iv i' detailsBuf' bufParts'"

code_pred visits .

text \<open>The header the loop reads at \<open>i\<close> and the segment it cuts for a header value.\<close>

definition headerAt :: "buffer \<Rightarrow> jsnum \<Rightarrow> jsnum option" where
  "headerAt source i = Number (toString (Buffer_slice source i (js_add i (Num 8))))"

definition segmentAt :: "buffer \<Rightarrow> jsnum \<Rightarrow> jsnum \<Rightarrow> buffer" where
  "segmentAt source i segSize =
     Buffer_slice source (js_add i (Num 8)) (js_add (js_add i (Num 8)) segSize)"

text \<open>
  An envelope whose headers give the lengths of the ciphertexts behind them, as the
  decoder reads them: the metadata of \<open>demo_file\<close> and its two bytes, encrypted.
\<close>

definition demo_source :: buffer where
  "demo_source =
     ''00000078'' @ rev demo_details_text @ ''fedcba9876543210''
       @ ''00000018'' @ ''ihfedcba9876543210''"

text \<open>A buffer that was cut out of the source by \<open>slice\<close>.\<close>

definition rawSlice :: "buffer \<Rightarrow> buffer \<Rightarrow> bool" where
  "rawSlice source part \<longleftrightarrow> (\<exists>a b. part = Buffer_slice source a b)"

section \<open>The cipher wrapper: empty input, the mode, and the round trip\<close>

lemma demo_aes_gcm: "aes_gcm demo_runtime"
  by (auto simp: aes_gcm_def demo_runtime_def demo_encrypt_def demo_decrypt_def demo_tag_def)

text \<open>
  C8. On an empty buffer \<open>aesCrypt\<close> returns an empty buffer and makes no call to the
  cipher, for every key, iv and mode (nullish ones too) and whatever the cipher of the
  runtime would do.
\<close>

theorem aesCrypt_empty_input:
  "aesCrypt_traced rt [] k iv mode = ([], Inr [])
   \<and> aesCrypt rt [] k iv mode = Inr []"
  by (simp add: aesCrypt_def aesCrypt_traced_def)

theorem aesCrypt_empty_input_witness:
  "aesCrypt_traced demo_runtime [] demo_key demo_iv (Some ''encrypt'') = ([], Inr [])
   \<and> aesCrypt demo_runtime [] demo_key demo_iv (Some ''encrypt'') = Inr []"
  using aesCrypt_empty_input [of demo_runtime demo_key demo_iv "Some ''encrypt''"] by simp

text \<open>
  C10. On a non-empty buffer, a mode that does not lower-case to \<open>encrypt\<close> (a nullish
  mode included) is not rejected: the call is the call with mode \<open>decrypt\<close>, its only
  call to the cipher is the decryption of the buffer, and it settles as that
  decryption does.
\<close>

theorem aesCrypt_other_mode_decrypts:
  assumes "data \<noteq> []" and "map_option toLowerCase mode \<noteq> Some ''encrypt''"
  shows "aesCrypt_traced rt data k iv mode = aesCrypt_traced rt data k iv (Some ''decrypt'')
         \<and> fst (aesCrypt_traced rt data k iv mode) = [Decrypt k iv data]
         \<and> aesCrypt rt data k iv mode =
             (case subtle_decrypt rt k iv data of
                Inl err \<Rightarrow> Inl (External err)
              | Inr res \<Rightarrow> Inr res)"
  using assms
  by (simp add: aesCrypt_traced_def aesCrypt_def toLowerCase_def toLowerCase_char_def)

theorem aesCrypt_other_mode_decrypts_witness:
  "''abc'' \<noteq> [] \<and> map_option toLowerCase (Some ''encrpyt'') \<noteq> Some ''encrypt''
   \<and> fst (aesCrypt_traced demo_runtime ''abc'' demo_key demo_iv (Some ''encrpyt''))
       = [Decrypt demo_key demo_iv ''abc'']
   \<and> aesCrypt demo_runtime ''abc'' demo_key demo_iv (Some ''encrpyt'') = Inl (External ''OperationError'')"
proof -
  have h1: "''abc'' \<noteq> []" by simp
  have h2: "map_option toLowerCase (Some ''encrpyt'') \<noteq> Some ''encrypt''"
    by (simp add: toLowerCase_def toLowerCase_char_def)
  note inst = aesCrypt_other_mode_decrypts [OF h1 h2, of demo_runtime demo_key demo_iv]
  have dec: "subtle_decrypt demo_runtime demo_key demo_iv ''abc'' = Inl ''OperationError''"
    by (simp add: demo_runtime_def demo_decrypt_def)
  have "aesCrypt demo_runtime ''abc'' demo_key demo_iv (Some ''encrpyt'')
          = Inl (External ''OperationError'')"
    using inst [THEN conjunct2, THEN conjunct2] dec by simp
  with h1 h2 inst [THEN conjunct2, THEN conjunct1] show ?thesis by blast
qed

text \<open>
  C4. With a cipher that behaves as AES-GCM does (\<open>aes_gcm\<close>), decrypting what
  \<open>aesCrypt\<close> returned for the encryption of a buffer, under the same key and iv, returns
  that buffer, the empty one included.
\<close>

theorem aesCrypt_round_trip:
  assumes "aes_gcm rt" and "aesCrypt rt b k iv (Some ''encrypt'') = Inr c"
  shows "aesCrypt rt c k iv (Some ''decrypt'') = Inr b"
proof (cases "b = []")
  case True
  with assms(2) show ?thesis by (simp add: aesCrypt_def aesCrypt_traced_def)
next
  case False
  with assms(2) have enc: "subtle_encrypt rt k iv b = Inr c"
    by (simp add: aesCrypt_def aesCrypt_traced_def toLowerCase_def toLowerCase_char_def
          split: sum.splits)
  with assms(1) have dec: "subtle_decrypt rt k iv c = Inr b" and len: "length c = length b + 16"
    unfolding aes_gcm_def by blast+
  from len have "c \<noteq> []" by auto
  with dec show ?thesis
    by (simp add: aesCrypt_def aesCrypt_traced_def toLowerCase_def toLowerCase_char_def)
qed

theorem aesCrypt_round_trip_witness:
  "aes_gcm demo_runtime
   \<and> aesCrypt demo_runtime ''hi'' demo_key demo_iv (Some ''encrypt'') = Inr ''ihfedcba9876543210''
   \<and> aesCrypt demo_runtime ''ihfedcba9876543210'' demo_key demo_iv (Some ''decrypt'') = Inr ''hi''"
proof -
  have enc: "aesCrypt demo_runtime ''hi'' demo_key demo_iv (Some ''encrypt'') = Inr ''ihfedcba9876543210''"
    by (simp add: aesCrypt_def aesCrypt_traced_def toLowerCase_def toLowerCase_char_def
          demo_runtime_def demo_encrypt_def demo_tag_def demo_iv_def)
  from aesCrypt_round_trip [OF demo_aes_gcm enc] demo_aes_gcm enc show ?thesis by simp
qed

section \<open>Unwrapping a wrapped key\<close>

lemma indexOf_lower: "- 1 \<le> indexOf s c"
  by (induction s) (auto simp: Let_def)

lemma indexOf_less_0: "indexOf s c < 0 \<longleftrightarrow> c \<notin> set s"
  by (induction s) (use indexOf_lower in \<open>auto simp: Let_def\<close>)

lemma split_not_Nil: "split sep s \<noteq> []"
  by (induction s) (auto split: list.splits)

lemma split_hd: "hd (split sep s) = takeWhile (\<lambda>c. c \<noteq> sep) s"
  by (induction s) (auto split: list.splits simp: split_not_Nil)

lemma split_tl:
  "sep \<in> set s \<Longrightarrow> tl (split sep s) = split sep (tl (dropWhile (\<lambda>c. c \<noteq> sep) s))"
  by (induction s) (auto split: list.splits simp: split_not_Nil)

lemma split_parts:
  assumes "sep \<in> set s"
  shows "at_index (split sep s) 0 = Some (takeWhile (\<lambda>c. c \<noteq> sep) s)"
    and "at_index (split sep s) (Suc 0)
          = Some (takeWhile (\<lambda>c. c \<noteq> sep) (tl (dropWhile (\<lambda>c. c \<noteq> sep) s)))"
proof -
  let ?rest = "tl (dropWhile (\<lambda>c. c \<noteq> sep) s)"
  obtain p ps where ps: "split sep s = p # ps"
    using split_not_Nil [of sep s] by (cases "split sep s") auto
  then have p: "p = takeWhile (\<lambda>c. c \<noteq> sep) s"
    using split_hd [of sep s] by simp
  from ps have tail: "ps = split sep ?rest"
    using split_tl [OF assms] by simp
  obtain q qs where qs: "split sep ?rest = q # qs"
    using split_not_Nil [of sep ?rest] by (cases "split sep ?rest") auto
  then have q: "q = takeWhile (\<lambda>c. c \<noteq> sep) ?rest"
    using split_hd [of sep ?rest] by simp
  from ps p show "at_index (split sep s) 0 = Some (takeWhile (\<lambda>c. c \<noteq> sep) s)"
    by (simp add: at_index_def)
  from ps tail qs q show "at_index (split sep s) (Suc 0) = Some (takeWhile (\<lambda>c. c \<noteq> sep) ?rest)"
    by (simp add: at_index_def)
qed

lemma digitVal_bar: "digitVal (CHR ''|'') = None"
  by (simp add: digitVal_def)

text \<open>Hexadecimal decoding stops at a delimiter, so what follows one is never read.\<close>

lemma Buffer_from_hex_cut:
  "Buffer_from_hex (takeWhile (\<lambda>c. c \<noteq> CHR ''|'') s) = Buffer_from_hex s"
proof (induction s rule: Buffer_from_hex.induct)
  case (1 a b rest)
  show ?case
  proof (cases "a = CHR ''|''")
    case True
    then show ?thesis by (simp add: digitVal_bar)
  next
    case a: False
    show ?thesis
    proof (cases "b = CHR ''|''")
      case True
      with a show ?thesis by (simp add: digitVal_bar split: option.splits)
    next
      case False
      with a 1 show ?thesis by (simp split: option.splits)
    qed
  qed
qed simp_all

lemma asymmetricDecrypt_cut:
  "asymmetricDecrypt rt w (takeWhile (\<lambda>c. c \<noteq> CHR ''|'') s) = asymmetricDecrypt rt w s"
  by (simp add: asymmetricDecrypt_def Buffer_from_hex_cut split: option.splits)

lemma unwrapParts_cut:
  "unwrapParts rt w p0 (takeWhile (\<lambda>c. c \<noteq> CHR ''|'') s) = unwrapParts rt w p0 s"
  by (simp add: unwrapParts_def asymmetricDecrypt_cut split: sum.splits)

lemma unwrapParts_not_invalid: "unwrapParts rt w p0 p1 \<noteq> Inl InvalidSourceString"
  by (auto simp: unwrapParts_def asymmetricDecrypt_def importJackalKey_def
      split: sum.splits option.splits)

text \<open>
  C7. \<open>stringToAes\<close> throws its invalid-source error exactly on the strings without a
  \<open>|\<close>, and on every string it does what the specification's \<open>unwrapFromSelf\<close> does:
  cut at the first delimiter, decrypt each half, import the key from the decrypted key
  bytes. (The code splits at every delimiter and reads the first two parts; a second
  delimiter and what follows it is not hexadecimal and is cut by the decoding anyway.)
\<close>

theorem stringToAes_unwraps:
  "stringToAes rt w source = unwrapFromSelf rt w source
   \<and> (stringToAes rt w source = Inl InvalidSourceString \<longleftrightarrow> CHR ''|'' \<notin> set source)"
proof (cases "CHR ''|'' \<in> set source")
  case True
  then have "stringToAes rt w source = unwrapFromSelf rt w source"
    by (simp add: stringToAes_def unwrapFromSelf_def indexOf_less_0 split_parts unwrapParts_cut)
  moreover from True have "unwrapFromSelf rt w source \<noteq> Inl InvalidSourceString"
    by (simp add: unwrapFromSelf_def unwrapParts_not_invalid)
  ultimately show ?thesis using True by simp
next
  case False
  then show ?thesis by (simp add: stringToAes_def unwrapFromSelf_def indexOf_less_0)
qed

theorem stringToAes_unwraps_witness:
  "stringToAes demo_runtime demo_wallet ''6162|30313233343536373839616263646566|zz''
     = Inr \<lparr>aes_iv = ''ba'', aes_key = CryptoKey ''fedcba9876543210''\<rparr>
   \<and> stringToAes demo_runtime demo_wallet ''6162'' = Inl InvalidSourceString"
proof -
  have "unwrapFromSelf demo_runtime demo_wallet ''6162|30313233343536373839616263646566|zz''
          = Inr \<lparr>aes_iv = ''ba'', aes_key = CryptoKey ''fedcba9876543210''\<rparr>"
    by (simp add: unwrapFromSelf_def unwrapParts_def asymmetricDecrypt_def demo_wallet_def
          demo_runtime_def demo_ecies_decrypt_def digitVal_def char_of_def bit_Suc_0_iff
          importJackalKey_def demo_importKey_def)
  moreover have "stringToAes demo_runtime demo_wallet ''6162'' = Inl InvalidSourceString"
    using stringToAes_unwraps [of demo_runtime demo_wallet "''6162''", THEN conjunct2] by simp
  ultimately show ?thesis
    using stringToAes_unwraps
      [of demo_runtime demo_wallet "''6162|30313233343536373839616263646566|zz''", THEN conjunct1]
    by simp
qed

section \<open>What the mutations of a folder node leave unchanged\<close>

lemma onlyChildrenChange_identity:
  assumes "onlyChildrenChange before after"
  shows "whoAmI after = whoAmI before" and "whereAmI after = whereAmI before"
    and "whoOwnsMe after = whoOwnsMe before"
proof -
  from assms have eq: "after = before\<lparr>dirChildren := dirChildren after, fileChildren := fileChildren after\<rparr>"
    by (simp add: onlyChildrenChange_def)
  show "whoAmI after = whoAmI before" by (subst eq) simp
  show "whereAmI after = whereAmI before" by (subst eq) simp
  show "whoOwnsMe after = whoOwnsMe before" by (subst eq) simp
qed

lemma addChildDirs_frame: "onlyChildrenChange fd (fst (addChildDirs u fd names w))"
  by (simp add: onlyChildrenChange_def addChildDirs_def Let_def split: sum.splits)

lemma addChildFileReferences_frame:
  "onlyChildrenChange fd (fst (addChildFileReferences u fd newFiles w))"
  by (simp add: onlyChildrenChange_def addChildFileReferences_def Let_def)

lemma removeChildDirReferences_frame:
  "onlyChildrenChange fd (fst (removeChildDirReferences u fd toRemove w))"
  by (simp add: onlyChildrenChange_def removeChildDirReferences_def Let_def)

lemma removeChildFileReferences_frame:
  "onlyChildrenChange fd (fst (removeChildFileReferences u fd toRemove w))"
  by (simp add: onlyChildrenChange_def removeChildFileReferences_def Let_def)

lemma removeChildDirAndFileReferences_frame:
  "onlyChildrenChange fd (fst (removeChildDirAndFileReferences u fd dirs files w))"
  by (simp add: onlyChildrenChange_def removeChildDirAndFileReferences_def Let_def)

lemma newChildren_inherit:
  "child \<in> set (newChildren u fd names) \<Longrightarrow>
     whoOwnsMe child = whoOwnsMe fd \<and> whereAmI child = whereAmI fd @ ''/'' @ whoAmI fd"
  by (auto simp: newChildren_def trackNewFolder_def makeChildDirInfo_def)

text \<open>
  C9. Each of the five mutating methods, on any node and with any arguments, whether its
  promise resolves or rejects, leaves the node as it was but for \<open>dirChildren\<close> and
  \<open>fileChildren\<close>; in particular \<open>whoAmI\<close>, \<open>whereAmI\<close> and \<open>whoOwnsMe\<close> are unchanged.
  Every child node \<open>addChildDirs\<close> constructs has this node's owner as its owner and this
  node's path as its parent.
\<close>

theorem mutations_keep_identity:
  "(\<forall>fd' \<in> set [fst (addChildDirs u fd names w),
                    fst (addChildFileReferences u fd newFiles w),
                    fst (removeChildDirReferences u fd toRemove w),
                    fst (removeChildFileReferences u fd toRemove w),
                    fst (removeChildDirAndFileReferences u fd dirs files w)].
      onlyChildrenChange fd fd' \<and> whoAmI fd' = whoAmI fd
      \<and> whereAmI fd' = whereAmI fd \<and> whoOwnsMe fd' = whoOwnsMe fd)
   \<and> (\<forall>child \<in> set (newChildren u fd names).
        whoOwnsMe child = whoOwnsMe fd \<and> whereAmI child = whereAmI fd @ ''/'' @ whoAmI fd)"
proof -
  have "onlyChildrenChange fd fd'
        \<and> whoAmI fd' = whoAmI fd \<and> whereAmI fd' = whereAmI fd \<and> whoOwnsMe fd' = whoOwnsMe fd"
    if "onlyChildrenChange fd fd'" for fd' :: "'a IFolderFileFrame"
    using that onlyChildrenChange_identity [OF that] by simp
  then show ?thesis
    using addChildDirs_frame [of fd u names w] addChildFileReferences_frame [of fd u newFiles w]
      removeChildDirReferences_frame [of fd u toRemove w]
      removeChildFileReferences_frame [of fd u toRemove w]
      removeChildDirAndFileReferences_frame [of fd u dirs files w]
      newChildren_inherit [of _ u fd names]
    by simp
qed

theorem mutations_keep_identity_witness:
  "whoAmI (fst (addChildDirs demo_utils docs [''reports'', ''reports''] demo_wallet)) = ''docs''
   \<and> whereAmI (fst (removeChildDirReferences demo_utils docs [''reports''] demo_wallet))
       = ''/home/alice''
   \<and> whoOwnsMe (fst (addChildFileReferences demo_utils docs [''a.txt'' \<mapsto> ()] demo_wallet))
       = ''alice''
   \<and> map whoOwnsMe (newChildren demo_utils docs [''reports'', ''reports''])
       = [''alice'', ''alice'']"
proof -
  note inst = mutations_keep_identity [of demo_utils docs "[''reports'', ''reports'']" demo_wallet
      "[''a.txt'' \<mapsto> ()]" "[''reports'']" "[]" "[]"]
  have kids: "newChildren demo_utils docs [''reports'', ''reports'']
      = [\<lparr>whoAmI = ''reports'', whereAmI = ''/home/alice/docs'', whoOwnsMe = ''alice'',
          dirChildren = [], fileChildren = Map.empty\<rparr>,
         \<lparr>whoAmI = ''reports'', whereAmI = ''/home/alice/docs'', whoOwnsMe = ''alice'',
          dirChildren = [], fileChildren = Map.empty\<rparr>]"
    by (simp add: newChildren_def docs_def trackNewFolder_def makeChildDirInfo_def demo_utils_def)
  have "whoOwnsMe docs = ''alice''" "whoAmI docs = ''docs''" "whereAmI docs = ''/home/alice''"
    by (simp_all add: docs_def)
  with inst kids show ?thesis by simp
qed




section \<open>The envelope the encoder builds\<close>

lemma frames_unframe [simp]: "frames (unframe fs) = fs"
  by (induction fs rule: unframe.induct) auto

lemma unframe_append: "unframe (fs @ gs) = unframe fs @ unframe gs"
  by (induction fs rule: unframe.induct) auto

lemma encodeLoop_frames:
  "encodeLoop rt f k iv i acc = Inr arr \<Longrightarrow>
     \<exists>fs. arr = acc @ unframe fs \<and> list_all2 (encodes rt k iv) (chunksFrom f i) fs"
proof (induction rt f k iv i acc rule: encodeLoop.induct)
  case (1 rt f k iv i acc)
  show ?case
  proof (cases "i < fsize f")
    case False
    with 1(2) have "arr = acc @ unframe []" by (simp add: encodeLoop.simps)
    moreover from False have "chunksFrom f i = []" by (simp add: chunksFrom.simps)
    ultimately show ?thesis by (metis list_all2_Nil)
  next
    case True
    let ?chunk = "Blob_slice f i (i + chunkSize)"
    from True 1(2) obtain c where c: "aesCrypt rt ?chunk k iv (Some ''encrypt'') = Inr c"
      and rest: "encodeLoop rt f k iv (i + chunkSize) (acc @ [lengthHeader ?chunk, c]) = Inr arr"
      by (subst (asm) encodeLoop.simps) (auto simp: Let_def split: sum.splits)
    from 1(1) [OF True refl c rest] obtain fs where
      fs: "arr = (acc @ [lengthHeader ?chunk, c]) @ unframe fs"
      and all: "list_all2 (encodes rt k iv) (chunksFrom f (i + chunkSize)) fs"
      by blast
    from True c all have "list_all2 (encodes rt k iv) (chunksFrom f i) ((lengthHeader ?chunk, c) # fs)"
      by (subst chunksFrom.simps) (simp add: encodes_def)
    moreover from fs have "arr = acc @ unframe ((lengthHeader ?chunk, c) # fs)" by simp
    ultimately show ?thesis by blast
  qed
qed

lemma convert_frames:
  assumes "convertToEncryptedFile rt f k iv = Inr out"
  shows "\<exists>fs. fileBits out = unframe fs \<and> list_all2 (encodes rt k iv) (plaintexts rt f) fs"
proof -
  let ?d = "Buffer_from (JSON_stringify rt (fileDetails f))"
  from assms obtain c0 arr where c0: "aesCrypt rt ?d k iv (Some ''encrypt'') = Inr c0"
    and arr: "encodeLoop rt f k iv 0 [lengthHeader ?d, c0] = Inr arr"
    and out: "fileBits out = arr"
    by (auto simp: convertToEncryptedFile_def Let_def split: sum.splits)
  from encodeLoop_frames [OF arr] obtain fs where "arr = [lengthHeader ?d, c0] @ unframe fs"
    and "list_all2 (encodes rt k iv) (chunksFrom f 0) fs" by blast
  with c0 out show ?thesis
    by (intro exI [of _ "(lengthHeader ?d, c0) # fs"]) (simp add: plaintexts_def encodes_def)
qed

lemma ceil_step:
  fixes c d :: nat
  assumes "0 < c" and "0 < d"
  shows "(d - c + c - 1) div c + 1 = (d + c - 1) div c"
proof (cases "d \<le> c")
  case True
  with assms have "c \<le> d + c - 1" and "d + c - 1 < 2 * c" by simp_all
  then have "(d + c - 1) div c = 1"
    by (simp add: div_nat_eqI)
  moreover from True assms have "(d - c + c - 1) div c = 0" by simp
  ultimately show ?thesis by simp
next
  case False
  define e where "e = d - c + c - 1"
  with False have "d + c - 1 = e + c" by simp
  moreover have "(e + c) div c = e div c + 1"
    using assms(1) by (simp only: div_add_self2)
  ultimately show ?thesis by (simp only: e_def)
qed

lemma ceil_least:
  fixes c s :: nat
  assumes "0 < c"
  shows "s \<le> ((s + c - 1) div c) * c" and "s \<le> m * c \<Longrightarrow> (s + c - 1) div c \<le> m"
proof -
  have "s + c - 1 < ((s + c - 1) div c) * c + c"
    using assms by (metis add.commute dividend_less_div_times mult.commute)
  then show "s \<le> ((s + c - 1) div c) * c" using assms by simp
next
  assume "s \<le> m * c"
  then have "s + c - 1 < m * c + c" using assms by simp
  then have "s + c - 1 < (m + 1) * c" by simp
  then have "(s + c - 1) div c < m + 1" using assms
    by (simp add: less_mult_imp_div_less)
  then show "(s + c - 1) div c \<le> m" by simp
qed

lemma chunkSize_pos: "0 < chunkSize"
  by (simp add: chunkSize_def)

lemma chunks_count:
  "length (chunksFrom f i) = (fsize f - i + chunkSize - 1) div chunkSize"
proof (induction f i rule: chunksFrom.induct)
  case (1 f i)
  show ?case
  proof (cases "i < fsize f")
    case False
    then have "chunksFrom f i = []" by (subst chunksFrom.simps) simp
    moreover from False have "fsize f - i + chunkSize - 1 < chunkSize"
      using chunkSize_pos by simp
    ultimately show ?thesis by simp
  next
    case True
    then have "chunksFrom f i = Blob_slice f i (i + chunkSize) # chunksFrom f (i + chunkSize)"
      by (subst chunksFrom.simps) simp
    then have "length (chunksFrom f i)
        = (fsize f - (i + chunkSize) + chunkSize - 1) div chunkSize + 1"
      using 1 [OF True] by simp
    also have "fsize f - (i + chunkSize) = fsize f - i - chunkSize" by simp
    also have "(fsize f - i - chunkSize + chunkSize - 1) div chunkSize + 1
        = (fsize f - i + chunkSize - 1) div chunkSize"
      using True by (intro ceil_step chunkSize_pos) simp
    finally show ?thesis .
  qed
qed

lemma digit_nth: "n < 10 \<Longrightarrow> isDigit (''0123456789'' ! n) \<and> digitVal (''0123456789'' ! n) = Some n"
  by (auto simp: eval_nat_numeral less_Suc_eq isDigit_def digitVal_def)

lemma toString_nat_digits: "list_all isDigit (toString_nat n)"
proof (induction n rule: toString_nat.induct)
  case (1 n)
  then show ?case
    by (subst toString_nat.simps) (simp add: digit_nth)
qed

lemma toString_nat_not_Nil: "toString_nat n \<noteq> []"
  by (subst toString_nat.simps) simp

lemma readRadix_append:
  "readRadix b (xs @ ys) acc = (case readRadix b xs acc of None \<Rightarrow> None | Some a \<Rightarrow> readRadix b ys a)"
  by (induction xs arbitrary: acc) (auto split: option.splits)

lemma readRadix_toString_nat: "readRadix 10 (toString_nat n) 0 = Some n"
proof (induction n rule: toString_nat.induct)
  case (1 n)
  show ?case
  proof (cases "n < 10")
    case True
    then show ?thesis by (subst toString_nat.simps) (simp add: digit_nth)
  next
    case False
    have "n mod 10 < 10" by simp
    with False 1 show ?thesis
      by (subst toString_nat.simps) (simp add: readRadix_append digit_nth)
  qed
qed

lemma readRadix_zeros: "readRadix 10 (replicate z (CHR ''0'')) 0 = Some 0"
  by (induction z) (simp_all add: digitVal_def)

lemma readRadix_header: "readRadix 10 (padStart 8 (CHR ''0'') (toString_nat n)) 0 = Some n"
  by (simp add: padStart_def readRadix_append readRadix_zeros readRadix_toString_nat)

lemma zero_digit: "isDigit (CHR ''0'')"
  by (simp add: isDigit_def)

lemma header_digits: "list_all isDigit (padStart 8 (CHR ''0'') (toString_nat n))"
proof -
  have "list_all isDigit (replicate z (CHR ''0''))" for z
    by (induction z) (simp_all add: zero_digit)
  then show ?thesis by (simp add: padStart_def toString_nat_digits)
qed

lemma length_toString_nat: "0 < k \<Longrightarrow> length (toString_nat n) \<le> k \<longleftrightarrow> n < 10 ^ k"
proof (induction n arbitrary: k rule: toString_nat.induct)
  case (1 n)
  show ?case
  proof (cases "n < 10")
    case True
    have "(10::nat) ^ 1 \<le> 10 ^ k" using 1(2) by (intro power_increasing) simp_all
    with True 1(2) show ?thesis by (subst toString_nat.simps) simp
  next
    case False
    show ?thesis
    proof (cases "k = 1")
      case True
      with False show ?thesis using toString_nat_not_Nil [of "n div 10"]
        by (subst toString_nat.simps) (simp add: Suc_le_eq)
    next
      case k: False
      with 1(2) obtain j where j: "k = Suc j" "0 < j" by (cases k) auto
      from 1(1) [OF False j(2)] have "length (toString_nat (n div 10)) \<le> j \<longleftrightarrow> n div 10 < 10 ^ j" .
      also have "\<dots> \<longleftrightarrow> n < 10 ^ k" by (simp add: j div_less_iff_less_mult mult.commute)
      finally show ?thesis using False by (subst toString_nat.simps) (simp add: j)
    qed
  qed
qed

lemma length_header:
  "length (lengthHeader p) = 8 \<longleftrightarrow> length p + 8 < 10 ^ 8"
proof -
  let ?s = "toString_nat (length p + 8)"
  have "length (lengthHeader p) = 8 \<longleftrightarrow> length ?s \<le> 8"
    by (auto simp: lengthHeader_def Buffer_from_def padStart_def)
  then show ?thesis using length_toString_nat [of 8 "length p + 8"] by simp
qed

lemma digit_not_space: "isDigit c \<Longrightarrow> \<not> isWhiteSpace c"
  by (auto simp: isDigit_def isWhiteSpace_def)

lemma digit_ascii: "isDigit c \<Longrightarrow> \<not> 128 \<le> (of_char c :: nat)"
  by (auto simp: isDigit_def)

lemma trim_digits:
  assumes "list_all isDigit s"
  shows "trim s = s"
proof (cases s)
  case Nil
  then show ?thesis by (simp add: trim_def)
next
  case (Cons c cs)
  with assms have "\<not> isWhiteSpace (hd s)" by (simp add: digit_not_space)
  with Cons have 1: "dropWhile isWhiteSpace s = s" by simp
  from Cons assms have "\<not> isWhiteSpace (last s)"
    by (metis digit_not_space last_in_set list.distinct(1) list_all_iff)
  with Cons have "dropWhile isWhiteSpace (rev s) = rev s"
    by (metis dropWhile_eq_self_iff hd_rev)
  with 1 show ?thesis by (simp add: trim_def)
qed

lemma Number_digits:
  assumes "list_all isDigit s" and "2 \<le> length s"
  shows "Number s = (case readRadix 10 s 0 of None \<Rightarrow> None | Some n \<Rightarrow> exactly (int n))"
proof -
  from assms(2) obtain z x ds where s: "s = z # x # ds"
    by (cases s; cases "tl s") auto
  with assms(1) have dz: "isDigit z" and dx: "isDigit x" by simp_all
  from dx have nd: "nonDecimalLiteral s = None"
    by (auto simp: s nonDecimalLiteral_def isDigit_def)
  from dz have sg: "signedDigits s = map_option int (readDigits 10 s)"
    by (auto simp: s signedDigits_def isDigit_def)
  have ascii: "\<not> list_ex (\<lambda>c. 128 \<le> (of_char c :: nat)) s"
    using assms(1) digit_ascii by (auto simp: list_ex_iff list_all_iff)
  obtain n where n: "readRadix 10 s 0 = Some n"
    using assms(1)
  proof -
    have "\<And>acc. list_all isDigit t \<Longrightarrow> \<exists>n. readRadix 10 t acc = Some n" for t
      by (induction t) (auto simp: isDigit_def digitVal_def)
    with assms(1) that show ?thesis by blast
  qed
  show ?thesis
    by (simp add: Number_def ascii trim_digits [OF assms(1)] nd sg readDigits_def n) (simp add: s)
qed

lemma Number_header:
  "Number (toString (lengthHeader p)) = exactly (int (length p + 8))"
proof -
  let ?h = "padStart 8 (CHR ''0'') (toString_nat (length p + 8))"
  have "2 \<le> length ?h" by (simp add: padStart_def)
  from Number_digits [OF header_digits this] show ?thesis
    by (simp add: toString_def lengthHeader_def Buffer_from_def readRadix_header)
qed

lemma encodes_encodedFrame:
  assumes "encodes rt k iv p fr"
  shows "encodedFrame rt k iv p fr"
proof -
  from assms have h: "fst fr = lengthHeader p"
    and c: "aesCrypt rt p k iv (Some ''encrypt'') = Inr (snd fr)"
    by (simp_all add: encodes_def)
  have "lengthHeader p = padStart 8 (CHR ''0'') (toString_nat (length p + 8))"
    by (simp only: lengthHeader_def Buffer_from_def)
  with h c Number_header [of p] length_header [of p] show ?thesis
    unfolding encodedFrame_def by (simp only: simp_thms)
qed

lemma replicate_6: "replicate 6 c = [c, c, c, c, c, c]"
  by (simp add: numeral_eq_Suc)

lemma demo_headers:
  "lengthHeader demo_details_text = ''00000070''" "lengthHeader ''hi'' = ''00000010''"
proof -
  have "length demo_details_text = 62" by (simp add: demo_details_text_def quoted_def)
  moreover have "toString_nat 70 = ''70''" "toString_nat 10 = ''10''"
    by (simp_all add: toString_nat.simps)
  ultimately show "lengthHeader demo_details_text = ''00000070''"
    and "lengthHeader ''hi'' = ''00000010''"
    by (simp_all add: lengthHeader_def Buffer_from_def padStart_def replicate_6)
qed

lemma demo_details: "JSON_stringify demo_runtime (fileDetails demo_file) = demo_details_text"
  by (simp add: demo_file_def demo_runtime_def fileDetails_def demo_stringify_def demo_value_def
        fsize_def toString_int_def toString_nat.simps demo_details_text_def)

lemma demo_convert: "convertToEncryptedFile demo_runtime demo_file demo_key demo_iv = Inr demo_encrypted"
proof -
  have enc: "aesCrypt demo_runtime p demo_key demo_iv (Some ''encrypt'') = Inr (rev p @ ''fedcba9876543210'')"
    if "p \<noteq> []" for p
    using that
    by (simp add: aesCrypt_def aesCrypt_traced_def toLowerCase_def toLowerCase_char_def
          demo_runtime_def demo_encrypt_def demo_tag_def demo_iv_def)
  have d: "demo_details_text \<noteq> []" by (simp add: demo_details_text_def)
  have chunk: "Blob_slice demo_file 0 chunkSize = ''hi''" "fsize demo_file = 2" "\<not> chunkSize < 2"
    by (simp_all add: Blob_slice_def demo_file_def chunkSize_def fsize_def)
  have loop: "encodeLoop demo_runtime demo_file demo_key demo_iv 0 acc
      = Inr (acc @ [''00000010'', ''ihfedcba9876543210''])" for acc
    using chunkSize_pos
    by (subst encodeLoop.simps, subst encodeLoop.simps)
       (simp add: chunk enc demo_headers Let_def)
  have name: "hashAndHex demo_runtime (fname demo_file @ toString_nat (Date_now demo_runtime)) = ''18''"
    by (simp add: demo_runtime_def demo_hashAndHex_def demo_file_def toString_nat.simps)
  show ?thesis
    by (simp add: convertToEncryptedFile_def demo_details Buffer_from_def enc [OF d] demo_headers
          loop name demo_encrypted_def demo_envelope_def)
qed

lemma encodeLoop_rejects:
  "encodeLoop rt f k iv i acc = Inl err \<Longrightarrow>
     \<exists>p \<in> set (chunksFrom f i). aesCrypt rt p k iv (Some ''encrypt'') = Inl err"
proof (induction rt f k iv i acc rule: encodeLoop.induct)
  case (1 rt f k iv i acc)
  show ?case
  proof (cases "i < fsize f")
    case False
    with 1(2) show ?thesis by (simp add: encodeLoop.simps)
  next
    case True
    let ?chunk = "Blob_slice f i (i + chunkSize)"
    from True have unfold: "chunksFrom f i = ?chunk # chunksFrom f (i + chunkSize)"
      by (subst chunksFrom.simps) simp
    show ?thesis
    proof (cases "aesCrypt rt ?chunk k iv (Some ''encrypt'')")
      case (Inl e)
      with True 1(2) have "e = err"
        by (subst (asm) encodeLoop.simps) (simp add: Let_def)
      with Inl unfold show ?thesis by simp
    next
      case (Inr c)
      with True 1(2) have "encodeLoop rt f k iv (i + chunkSize) (acc @ [lengthHeader ?chunk, c]) = Inl err"
        by (subst (asm) encodeLoop.simps) (simp add: Let_def)
      from 1(1) [OF True refl Inr this] unfold show ?thesis by auto
    qed
  qed
qed

lemma convert_rejects:
  assumes "convertToEncryptedFile rt f k iv = Inl err"
  shows "\<exists>p \<in> set (plaintexts rt f). aesCrypt rt p k iv (Some ''encrypt'') = Inl err"
proof -
  let ?d = "Buffer_from (JSON_stringify rt (fileDetails f))"
  show ?thesis
  proof (cases "aesCrypt rt ?d k iv (Some ''encrypt'')")
    case (Inl e)
    with assms have "e = err" by (simp add: convertToEncryptedFile_def Let_def)
    with Inl show ?thesis by (simp add: plaintexts_def)
  next
    case (Inr c0)
    with assms have "encodeLoop rt f k iv 0 [lengthHeader ?d, c0] = Inl err"
      by (simp add: convertToEncryptedFile_def Let_def split: sum.splits)
    from encodeLoop_rejects [OF this] show ?thesis by (auto simp: plaintexts_def)
  qed
qed

lemma chunk_length:
  "p \<in> set (chunksFrom f i) \<Longrightarrow> p \<noteq> [] \<and> length p \<le> chunkSize"
proof (induction f i rule: chunksFrom.induct)
  case (1 f i)
  show ?case
  proof (cases "i < fsize f")
    case False
    with 1(2) show ?thesis by (simp add: chunksFrom.simps)
  next
    case True
    then have "chunksFrom f i = Blob_slice f i (i + chunkSize) # chunksFrom f (i + chunkSize)"
      by (subst chunksFrom.simps) simp
    with 1(2) consider "p = Blob_slice f i (i + chunkSize)" | "p \<in> set (chunksFrom f (i + chunkSize))"
      by auto
    then show ?thesis
    proof cases
      case 1
      with True chunkSize_pos show ?thesis by (auto simp: Blob_slice_def fsize_def)
    next
      case 2
      with "1.IH" [OF True] show ?thesis by simp
    qed
  qed
qed

lemma frames_of_convert:
  assumes "convertToEncryptedFile rt f k iv = Inr out"
  shows "fileBits out = unframe (frames (fileBits out))"
    and "list_all2 (encodes rt k iv) (plaintexts rt f) (frames (fileBits out))"
  using convert_frames [OF assms] by auto

text \<open>
  What the encoder writes. Whenever \<open>convertToEncryptedFile\<close> returns, its array is a
  sequence of frames, one per plaintext (the metadata, then the chunks in order): the
  ciphertext \<open>aesCrypt\<close> gave for the plaintext, behind a header of zero-padded decimal
  digits whose value is the byte length of the plaintext plus 8. The header has 8 bytes
  when that value is below \<open>10 ^ 8\<close>, as it is in every content frame. Under AES-GCM a
  ciphertext is 16 bytes longer than its plaintext, so the header is 8 short of the
  length of the ciphertext behind it.
\<close>

theorem headers_count_plaintext:
  assumes "convertToEncryptedFile rt f k iv = Inr out"
  shows "fileBits out = unframe (frames (fileBits out))
         \<and> list_all2 (encodedFrame rt k iv) (plaintexts rt f) (frames (fileBits out))
         \<and> list_all (\<lambda>frame. length (fst frame) = 8) (tl (frames (fileBits out)))
         \<and> (aes_gcm rt \<longrightarrow>
              list_all2 (\<lambda>p frame. p \<noteq> [] \<longrightarrow> length (snd frame) = length p + 16)
                (plaintexts rt f) (frames (fileBits out)))"
proof -
  note fr = frames_of_convert [OF assms]
  let ?fs = "frames (fileBits out)"
  from fr(2) have enc: "list_all2 (encodedFrame rt k iv) (plaintexts rt f) ?fs"
    by (rule list_all2_mono) (rule encodes_encodedFrame)
  from enc obtain fr0 rest where fs: "?fs = fr0 # rest"
    and rest: "list_all2 (encodedFrame rt k iv) (chunksFrom f 0) rest"
    by (auto simp: plaintexts_def list_all2_Cons1)
  have "length (fst frame) = 8" if "frame \<in> set rest" for frame
  proof -
    from that obtain j where j: "j < length rest" "frame = rest ! j"
      by (auto simp: in_set_conv_nth)
    with rest have "chunksFrom f 0 ! j \<in> set (chunksFrom f 0)"
      and "encodedFrame rt k iv (chunksFrom f 0 ! j) frame"
      by (simp_all add: list_all2_conv_all_nth)
    then obtain p where p: "p \<in> set (chunksFrom f 0)" and e: "encodedFrame rt k iv p frame"
      by blast
    from chunk_length [OF p] have "length p + 8 < 10 ^ 8" by (simp add: chunkSize_def)
    moreover from e have "length (fst frame) = 8 \<longleftrightarrow> length p + 8 < 10 ^ 8"
      unfolding encodedFrame_def by blast
    ultimately show ?thesis by blast
  qed
  then have eight: "list_all (\<lambda>frame. length (fst frame) = 8) (tl ?fs)"
    by (simp add: fs list_all_iff)
  have "list_all2 (\<lambda>p frame. p \<noteq> [] \<longrightarrow> length (snd frame) = length p + 16) (plaintexts rt f) ?fs"
    if gcm: "aes_gcm rt"
  proof (rule list_all2_mono [OF fr(2)])
    fix p frame
    assume e: "encodes rt k iv p frame"
    show "p \<noteq> [] \<longrightarrow> length (snd frame) = length p + 16"
    proof
      assume "p \<noteq> []"
      with e have "subtle_encrypt rt k iv p = Inr (snd frame)"
        by (simp add: encodes_def aesCrypt_def aesCrypt_traced_def toLowerCase_def
              toLowerCase_char_def split: sum.splits)
      with gcm show "length (snd frame) = length p + 16"
        unfolding aes_gcm_def by blast
    qed
  qed
  with fr(1) enc eight show ?thesis by blast
qed

theorem headers_count_plaintext_witness:
  "convertToEncryptedFile demo_runtime demo_file demo_key demo_iv = Inr demo_encrypted
   \<and> aes_gcm demo_runtime
   \<and> list_all2 (encodedFrame demo_runtime demo_key demo_iv)
        (plaintexts demo_runtime demo_file) (frames (fileBits demo_encrypted))
   \<and> list_all (\<lambda>frame. length (fst frame) = 8) (tl (frames (fileBits demo_encrypted)))
   \<and> list_all2 (\<lambda>p frame. p \<noteq> [] \<longrightarrow> length (snd frame) = length p + 16)
        (plaintexts demo_runtime demo_file) (frames (fileBits demo_encrypted))"
  using headers_count_plaintext [OF demo_convert] demo_convert demo_aes_gcm by blast

text \<open>
  C5. \<open>convertToEncryptedFile\<close> returns exactly when \<open>aesCrypt\<close> accepts every plaintext,
  and what it returns holds one frame for the metadata and one for each chunk of
  \<open>chunkSize\<close> (32 MiB) bytes: \<open>chunkCount (size) + 1\<close> frames, where \<open>chunkCount\<close> is the
  size divided by 32 MiB and rounded up (the least \<open>m\<close> with \<open>size \<le> m * chunkSize\<close>).
  A file of 0 bytes gives the metadata frame alone.
\<close>

theorem frame_count:
  "((\<exists>out. convertToEncryptedFile rt f k iv = Inr out)
      \<longleftrightarrow> (\<forall>p \<in> set (plaintexts rt f). \<exists>c. aesCrypt rt p k iv (Some ''encrypt'') = Inr c))
   \<and> (\<forall>out. convertToEncryptedFile rt f k iv = Inr out \<longrightarrow>
        fileBits out = unframe (frames (fileBits out))
        \<and> length (frames (fileBits out)) = chunkCount (fsize f) + 1
        \<and> (fsize f = 0 \<longrightarrow> length (frames (fileBits out)) = 1))
   \<and> chunkSize = 32 * 1024 * 1024
   \<and> fsize f \<le> chunkCount (fsize f) * chunkSize
   \<and> (\<forall>m. fsize f \<le> m * chunkSize \<longrightarrow> chunkCount (fsize f) \<le> m)"
proof -
  have returns: "(\<exists>out. convertToEncryptedFile rt f k iv = Inr out)
      \<longleftrightarrow> (\<forall>p \<in> set (plaintexts rt f). \<exists>c. aesCrypt rt p k iv (Some ''encrypt'') = Inr c)"
  proof
    assume "\<exists>out. convertToEncryptedFile rt f k iv = Inr out"
    then obtain out where "convertToEncryptedFile rt f k iv = Inr out" ..
    from frames_of_convert(2) [OF this]
    show "\<forall>p \<in> set (plaintexts rt f). \<exists>c. aesCrypt rt p k iv (Some ''encrypt'') = Inr c"
      by (auto simp: list_all2_conv_all_nth in_set_conv_nth encodes_def)
  next
    assume all: "\<forall>p \<in> set (plaintexts rt f). \<exists>c. aesCrypt rt p k iv (Some ''encrypt'') = Inr c"
    show "\<exists>out. convertToEncryptedFile rt f k iv = Inr out"
    proof (cases "convertToEncryptedFile rt f k iv")
      case (Inl err)
      from convert_rejects [OF this] all show ?thesis by auto
    next
      case (Inr out)
      then show ?thesis by blast
    qed
  qed
  have count: "length (frames (fileBits out)) = chunkCount (fsize f) + 1"
    if "convertToEncryptedFile rt f k iv = Inr out" for out
    using frames_of_convert(2) [OF that] chunks_count [of f 0]
    by (auto simp: plaintexts_def chunkCount_def dest: list_all2_lengthD)
  have zero: "chunkCount 0 = 0"
    using chunkSize_pos by (simp add: chunkCount_def)
  from returns count zero frames_of_convert(1)
    ceil_least [OF chunkSize_pos, of "fsize f"]
  show ?thesis
    by (auto simp: chunkCount_def chunkSize_def)
qed

theorem frame_count_witness:
  "(\<exists>out. convertToEncryptedFile demo_runtime empty_file demo_key demo_iv = Inr out
       \<and> length (frames (fileBits out)) = 1)
   \<and> convertToEncryptedFile demo_runtime demo_file demo_key demo_iv = Inr demo_encrypted
   \<and> length (frames (fileBits demo_encrypted)) = 2"
proof -
  have accepts: "\<exists>c. aesCrypt demo_runtime p demo_key demo_iv (Some ''encrypt'') = Inr c" for p
    by (simp add: aesCrypt_def aesCrypt_traced_def demo_runtime_def demo_encrypt_def
          toLowerCase_def toLowerCase_char_def)
  note empty = frame_count [of demo_runtime empty_file demo_key demo_iv]
  from empty [THEN conjunct1] accepts
  obtain out where out: "convertToEncryptedFile demo_runtime empty_file demo_key demo_iv = Inr out"
    by blast
  moreover have "fsize empty_file = 0" by (simp add: fsize_def empty_file_def)
  ultimately have "length (frames (fileBits out)) = 1"
    using empty [THEN conjunct2, THEN conjunct1] by blast
  with out have first: "\<exists>out. convertToEncryptedFile demo_runtime empty_file demo_key demo_iv = Inr out
       \<and> length (frames (fileBits out)) = 1" by blast
  have "chunkCount (fsize demo_file) = 1"
    by (simp add: chunkCount_def chunkSize_def fsize_def demo_file_def)
  with frame_count [of demo_runtime demo_file demo_key demo_iv, THEN conjunct2, THEN conjunct1]
    demo_convert
  have "length (frames (fileBits demo_encrypted)) = 2" by auto
  with first demo_convert show ?thesis by blast
qed

section \<open>What the decoder keeps, and where it fails or never ends\<close>

lemma decodeLoop_Next:
  "decodeIteration rt source k iv i d ps = Next i' d' ps' \<Longrightarrow>
     decodeLoop rt source k iv i d ps = decodeLoop rt source k iv i' d' ps'"
  by (subst decodeLoop.simps) simp

lemma decodeLoop_Finished:
  "decodeIteration rt source k iv i d ps = Finished r \<Longrightarrow>
     decodeLoop rt source k iv i d ps = Some r"
  by (subst decodeLoop.simps) simp

lemma visits_same_end:
  "visits rt source k iv i d ps \<Longrightarrow>
     decodeLoop rt source k iv i d ps = decodeLoop rt source k iv (Num 0) [] []"
  by (induction rule: visits.induct) (simp_all add: decodeLoop_Next)

lemma decodeIteration_cases:
  "decodeIteration rt source k iv i d ps =
     (if \<not> js_less i (Num (int (length source))) then Finished (Returns (d, ps))
      else case headerAt source i of
        None \<Rightarrow> Finished OutsideModel
      | Some segSize \<Rightarrow>
          (case aesCrypt rt (segmentAt source i segSize) k iv (Some ''decrypt'') of
             Inl err \<Rightarrow> Finished (Throws err)
           | Inr decrypted \<Rightarrow>
               if i = Num 0 then Next (js_add (js_add i (Num 8)) segSize) (segmentAt source i segSize) ps
               else Next (js_add (js_add i (Num 8)) segSize) d (ps @ [segmentAt source i segSize])))"
  by (simp add: decodeIteration_def headerAt_def segmentAt_def Let_def split: option.splits sum.splits)

lemma minus8_header: "headerAt ''-0000008'' (Num 0) = Some (Num (- 8))"
  by (simp add: headerAt_def Buffer_slice_def adjustOffset_def toString_def Number_def trim_def
        isWhiteSpace_def nonDecimalLiteral_def signedDigits_def readDigits_def digitVal_def
        exactly_def)

lemma minus8_pass: "decodeIteration rt ''-0000008'' k iv (Num 0) d ps = Next (Num 0) [] ps"
  by (simp add: decodeIteration_cases minus8_header segmentAt_def Buffer_slice_def
        adjustOffset_def aesCrypt_def aesCrypt_traced_def)

lemma minus8_never:
  assumes "decodeLoop rt source k iv i d ps = Some r"
  shows "\<not> (source = ''-0000008'' \<and> i = Num 0)"
proof (rule decodeLoop.raw_induct
    [where P = "\<lambda>rt source k iv i d ps r. \<not> (source = ''-0000008'' \<and> i = Num 0)", OF _ assms])
  fix loop rt source k iv i d ps r
  assume IH: "\<And>rt source k iv i d ps r.
      loop rt source k iv i d ps = Some r \<Longrightarrow> \<not> (source = ''-0000008'' \<and> i = Num 0)"
    and body: "(case decodeIteration rt source k iv i d ps of
        Next i' d' ps' \<Rightarrow> loop rt source k iv i' d' ps'
      | Finished r \<Rightarrow> Some r) = Some r"
  show "\<not> (source = ''-0000008'' \<and> i = Num 0)"
  proof
    assume "source = ''-0000008'' \<and> i = Num 0"
    with body have "loop rt ''-0000008'' k iv (Num 0) [] ps = Some r"
      by (simp add: minus8_pass)
    from IH [OF this] show False by simp
  qed
qed

lemma minus8_loops: "convertFromEncryptedFile rt ''-0000008'' k iv = None"
proof -
  have "decodeLoop rt ''-0000008'' k iv (Num 0) [] [] = None"
    using minus8_never [of rt "''-0000008''" k iv "Num 0" "[]" "[]"]
    by (cases "decodeLoop rt ''-0000008'' k iv (Num 0) [] []") auto
  then show ?thesis by (simp add: convertFromEncryptedFile_def Buffer_from_def)
qed

lemma visits_end:
  assumes "visits rt source k iv i d ps" and "decodeIteration rt source k iv i d ps = Finished r"
  shows "decodeLoop rt source k iv (Num 0) [] [] = Some r"
  using visits_same_end [OF assms(1)] decodeLoop_Finished [OF assms(2)] by simp

lemma convert_of_loop:
  "decodeLoop rt source k iv (Num 0) [] [] = Some r \<Longrightarrow>
     convertFromEncryptedFile rt source k iv =
       Some (case r of Returns (d, ps) \<Rightarrow> afterLoop rt d ps | Throws err \<Rightarrow> Throws err
             | OutsideModel \<Rightarrow> OutsideModel)"
  by (simp add: convertFromEncryptedFile_def Buffer_from_def split: completion.splits)

lemma segmentAt_clamped:
  assumes "0 \<le> n" and "0 \<le> m"
  shows "segmentAt source (Num n) (Num m) = take (nat m) (drop (nat n + 8) source)"
proof (cases "n + 8 < int (length source)")
  case True
  with assms show ?thesis
    by (auto simp: segmentAt_def Buffer_slice_def adjustOffset_def Let_def nat_add_distrib
        min_def take_all_iff nat_diff_distrib)
next
  case False
  with assms show ?thesis
    by (auto simp: segmentAt_def Buffer_slice_def adjustOffset_def Let_def nat_add_distrib)
qed

lemma throws_at_visited:
  assumes "visits rt source k iv i d ps" and "js_less i (Num (int (length source)))"
    and "headerAt source i = Some segSize"
    and "aesCrypt rt (segmentAt source i segSize) k iv (Some ''decrypt'') = Inl err"
  shows "convertFromEncryptedFile rt source k iv = Some (Throws err)"
proof -
  from assms(2-4) have "decodeIteration rt source k iv i d ps = Finished (Throws err)"
    by (simp add: decodeIteration_cases)
  from convert_of_loop [OF visits_end [OF assms(1) this]] show ?thesis by simp
qed

lemma Buffer_slice_Num:
  assumes "0 \<le> a" and "a \<le> b"
  shows "Buffer_slice buf (Num a) (Num b) = take (nat (b - a)) (drop (nat a) buf)"
proof (cases "a < int (length buf)")
  case True
  with assms show ?thesis
    by (auto simp: Buffer_slice_def adjustOffset_def Let_def min_def take_all_iff
        nat_diff_distrib)
next
  case False
  with assms show ?thesis
    by (auto simp: Buffer_slice_def adjustOffset_def Let_def)
qed

lemma headerAt_Num:
  "0 \<le> n \<Longrightarrow> headerAt source (Num n) = Number (take 8 (drop (nat n) source))"
  by (simp add: headerAt_def Buffer_slice_Num toString_def)

lemmas Number_eval = Number_def trim_def isWhiteSpace_def nonDecimalLiteral_def
  signedDigits_def readDigits_def digitVal_def exactly_def decimalLiteral_def
  unsignedDecimalLiteral_def exponentPart_def isDigit_def

lemma demo_details_length: "length demo_details_text = 62"
  by (simp add: demo_details_text_def quoted_def)

lemma demo_decrypts:
  "aesCrypt demo_runtime (rev p @ ''fedcba9876543210'') demo_key demo_iv (Some ''decrypt'') = Inr p"
  by (simp add: aesCrypt_def aesCrypt_traced_def toLowerCase_def toLowerCase_char_def
        demo_runtime_def demo_decrypt_def demo_tag_def demo_iv_def)

lemma demo_source_walk:
  "decodeLoop demo_runtime demo_source demo_key demo_iv (Num 0) [] []
     = Some (Returns (rev demo_details_text @ ''fedcba9876543210'', [''ihfedcba9876543210'']))"
proof -
  let ?c0 = "rev demo_details_text @ ''fedcba9876543210''"
  let ?c1 = "''ihfedcba9876543210''"
  have len: "length demo_source = 112"
    by (simp add: demo_source_def demo_details_length)
  have h0: "headerAt demo_source (Num 0) = Some (Num 78)"
    by (simp add: headerAt_Num demo_source_def Number_eval)
  have s0: "segmentAt demo_source (Num 0) (Num 78) = ?c0"
    by (simp add: segmentAt_clamped demo_source_def demo_details_length)
  have h1: "headerAt demo_source (Num 86) = Some (Num 18)"
    by (simp add: headerAt_Num demo_source_def demo_details_length Number_eval)
  have s1: "segmentAt demo_source (Num 86) (Num 18) = ?c1"
    by (simp add: segmentAt_clamped demo_source_def demo_details_length)
  have p0: "decodeIteration demo_runtime demo_source demo_key demo_iv (Num 0) [] [] = Next (Num 86) ?c0 []"
    by (simp add: decodeIteration_cases len h0 s0 demo_decrypts)
  have p1: "decodeIteration demo_runtime demo_source demo_key demo_iv (Num 86) ?c0 []
      = Next (Num 112) ?c0 [?c1]"
    using demo_decrypts [of "''hi''"]
    by (simp add: decodeIteration_cases len h1 s1)
  have p2: "decodeIteration demo_runtime demo_source demo_key demo_iv (Num 112) ?c0 [?c1]
      = Finished (Returns (?c0, [?c1]))"
    by (simp add: decodeIteration_cases len)
  from visits.pass [OF visits.pass [OF visits.start p0] p1] p2 show ?thesis
    by (rule visits_end)
qed

lemma demo_parse_ciphertext:
  "JSON_parse demo_runtime (rev demo_details_text @ ''fedcba9876543210'') = Inl ''SyntaxError''"
  by (simp add: demo_runtime_def demo_parse_def demo_details_text_def quoted_def)

lemma demo_parse_details:
  "JSON_parse demo_runtime demo_details_text = Inr (fileDetails demo_file)"
  by (simp add: demo_runtime_def demo_parse_def demo_details_text_def quoted_def demo_member_def
        unquoted_def readDigits_def digitVal_def fileDetails_def demo_file_def fsize_def)

lemma rawSlice_Nil: "rawSlice source []"
  unfolding rawSlice_def
  by (rule exI [of _ NaN], rule exI [of _ NaN]) (simp add: Buffer_slice_def adjustOffset_def)

lemma visits_raw:
  "visits rt source k iv i d ps \<Longrightarrow> rawSlice source d \<and> list_all (rawSlice source) ps"
proof (induction rule: visits.induct)
  case start
  show ?case by (simp add: rawSlice_Nil)
next
  case (pass i d ps i' d' ps')
  from pass.hyps(2) obtain segSize where
    "(d' = segmentAt source i segSize \<and> ps' = ps) \<or> (d' = d \<and> ps' = ps @ [segmentAt source i segSize])"
    by (auto simp: decodeIteration_cases split: if_splits option.splits sum.splits)
  moreover have "rawSlice source (segmentAt source i segSize)"
    unfolding rawSlice_def segmentAt_def by blast
  ultimately show ?case using pass.IH by auto
qed

lemma loop_ends_at_visited:
  assumes "decodeLoop rt source k iv i d ps = Some r"
  shows "visits rt source k iv i d ps \<longrightarrow>
     (\<exists>i' d' ps'. visits rt source k iv i' d' ps'
        \<and> decodeIteration rt source k iv i' d' ps' = Finished r)"
proof (rule decodeLoop.raw_induct
    [where P = "\<lambda>rt source k iv i d ps r. visits rt source k iv i d ps \<longrightarrow>
       (\<exists>i' d' ps'. visits rt source k iv i' d' ps'
          \<and> decodeIteration rt source k iv i' d' ps' = Finished r)", OF _ assms])
  fix loop rt source k iv i d ps r
  assume IH: "\<And>rt source k iv i d ps r. loop rt source k iv i d ps = Some r \<Longrightarrow>
      visits rt source k iv i d ps \<longrightarrow>
       (\<exists>i' d' ps'. visits rt source k iv i' d' ps'
          \<and> decodeIteration rt source k iv i' d' ps' = Finished r)"
    and body: "(case decodeIteration rt source k iv i d ps of
        Next i' d' ps' \<Rightarrow> loop rt source k iv i' d' ps'
      | Finished r \<Rightarrow> Some r) = Some r"
  show "visits rt source k iv i d ps \<longrightarrow>
       (\<exists>i' d' ps'. visits rt source k iv i' d' ps'
          \<and> decodeIteration rt source k iv i' d' ps' = Finished r)"
  proof
    assume v: "visits rt source k iv i d ps"
    show "\<exists>i' d' ps'. visits rt source k iv i' d' ps'
          \<and> decodeIteration rt source k iv i' d' ps' = Finished r"
    proof (cases "decodeIteration rt source k iv i d ps")
      case (Next i' d' ps')
      with body have "loop rt source k iv i' d' ps' = Some r" by simp
      from IH [OF this] visits.pass [OF v Next] show ?thesis by blast
    next
      case (Finished r')
      with body v show ?thesis by auto
    qed
  qed
qed

lemma decoded_file_is_raw:
  assumes "convertFromEncryptedFile rt source k iv = Some (Returns f)"
  shows "\<exists>d ps details nm.
           rawSlice source d \<and> list_all (rawSlice source) ps
           \<and> JSON_parse rt (toString d) = Inr details
           \<and> File_new rt ps nm details = Inr f"
proof -
  from assms obtain d ps where loop: "decodeLoop rt source k iv (Num 0) [] [] = Some (Returns (d, ps))"
    and f: "afterLoop rt d ps = Returns f"
    by (auto simp: convertFromEncryptedFile_def Buffer_from_def split: option.splits completion.splits)
  from loop_ends_at_visited [OF loop] visits.start obtain i' d' ps' where
    v: "visits rt source k iv i' d' ps'"
    and fin: "decodeIteration rt source k iv i' d' ps' = Finished (Returns (d, ps))"
    by blast
  from fin have "d' = d" "ps' = ps"
    by (auto simp: decodeIteration_cases split: if_splits option.splits sum.splits)
  with visits_raw [OF v] have raw: "rawSlice source d" "list_all (rawSlice source) ps" by simp_all
  from f obtain details nm where "JSON_parse rt (toString d) = Inr details"
    and "File_new rt ps nm details = Inr f"
    by (auto simp: afterLoop_def split: sum.splits)
  with raw show ?thesis by blast
qed

lemma demo_envelope_rejected:
  "visits demo_runtime (concat demo_envelope) demo_key demo_iv (Num 0) [] []
   \<and> js_less (Num 0) (Num (int (length (concat demo_envelope))))
   \<and> headerAt (concat demo_envelope) (Num 0) = Some (Num 70)
   \<and> aesCrypt demo_runtime (segmentAt (concat demo_envelope) (Num 0) (Num 70)) demo_key demo_iv
        (Some ''decrypt'') = Inl (External ''OperationError'')"
proof -
  have h: "headerAt (concat demo_envelope) (Num 0) = Some (Num 70)"
    by (simp add: headerAt_Num demo_envelope_def Number_eval)
  have s: "segmentAt (concat demo_envelope) (Num 0) (Num 70) = rev demo_details_text @ ''fedcba98''"
    by (simp add: segmentAt_clamped demo_envelope_def demo_details_length)
  have "aesCrypt demo_runtime (rev demo_details_text @ ''fedcba98'') demo_key demo_iv
      (Some ''decrypt'') = Inl (External ''OperationError'')"
    by (simp add: aesCrypt_def aesCrypt_traced_def toLowerCase_def toLowerCase_char_def
          demo_runtime_def demo_decrypt_def demo_tag_def demo_iv_def demo_details_length
          demo_details_text_def quoted_def)
  with h s show ?thesis by (simp add: visits.start demo_envelope_def)
qed

text \<open>
  C1 states that the decrypted plaintext is what the decoder reassembles. The code keeps
  the segments it cut from the envelope: a returned file is built from slices of the
  source, and its metadata is parsed from one (lemma \<open>decoded_file_is_raw\<close>).
  On \<open>demo_source\<close>, whose two frames decrypt to the metadata of \<open>a.txt\<close> and to its
  content \<open>hi\<close>, the loop ends with the two ciphertexts, and the call throws the
  \<open>SyntaxError\<close> of parsing the first ciphertext as JSON.
\<close>

theorem decoder_keeps_ciphertext:
  "decodeLoop demo_runtime demo_source demo_key demo_iv (Num 0) [] []
     = Some (Returns (rev demo_details_text @ ''fedcba9876543210'', [''ihfedcba9876543210'']))
   \<and> aesCrypt demo_runtime (rev demo_details_text @ ''fedcba9876543210'') demo_key demo_iv
        (Some ''decrypt'') = Inr demo_details_text
   \<and> JSON_parse demo_runtime demo_details_text = Inr (fileDetails demo_file)
   \<and> aesCrypt demo_runtime ''ihfedcba9876543210'' demo_key demo_iv (Some ''decrypt'') = Inr ''hi''
   \<and> convertFromEncryptedFile demo_runtime demo_source demo_key demo_iv
       = Some (Throws (External ''SyntaxError''))"
  using demo_decrypts [of "''hi''"] demo_decrypts [of demo_details_text]
    convert_of_loop [OF demo_source_walk]
  by (simp add: demo_source_walk demo_parse_details afterLoop_def demo_parse_ciphertext toString_def)

text \<open>
  C3 asks that a malformed envelope fails with an error. On the envelope of the eight
  bytes \<open>-0000008\<close>, whose header is no run of eight digits, \<open>Number\<close> reads the header as
  \<open>-8\<close>, \<open>last\<close> is \<open>8 + (-8) = 0\<close>, the segment \<open>source.slice(8, 0)\<close> is empty, \<open>aesCrypt\<close>
  returns without the cipher, and \<open>i\<close> is 0 again after the pass: whatever the runtime,
  the key and the iv, the loop never ends, and the call neither throws nor returns.
\<close>

theorem decoder_never_ends:
  "headerAt ''-0000008'' (Num 0) = Some (Num (- 8))
   \<and> segmentAt ''-0000008'' (Num 0) (Num (- 8)) = []
   \<and> decodeIteration rt ''-0000008'' k iv (Num 0) d ps = Next (Num 0) [] ps
   \<and> convertFromEncryptedFile rt ''-0000008'' k iv = None"
  by (simp add: minus8_header minus8_pass minus8_loops segmentAt_def Buffer_slice_def
        adjustOffset_def)

text \<open>
  C2 asks for a header whose value is the length of the ciphertext plus 8. For the
  two-byte file \<open>a.txt\<close> the header of the content frame reads 10, the two bytes of the
  plaintext plus 8, in front of a ciphertext of 18 bytes (whose length plus 8 is 26).
  The decoder of the same file takes the header for the length of the segment behind
  it, so it cuts the first frame of this envelope 8 bytes short of its ciphertext, and
  the cipher rejects it: what the encoder writes cannot be decoded.
\<close>

theorem encoder_header_misses_ciphertext:
  "convertToEncryptedFile demo_runtime demo_file demo_key demo_iv = Inr demo_encrypted
   \<and> frames (fileBits demo_encrypted)
       = [(''00000070'', rev demo_details_text @ ''fedcba9876543210''),
          (''00000010'', ''ihfedcba9876543210'')]
   \<and> Number (toString ''00000010'') = Some (Num 10)
   \<and> int (length ''ihfedcba9876543210'') + 8 = 26
   \<and> \<not> list_all (\<lambda>frame. Number (toString (fst frame)) = Some (Num (int (length (snd frame)) + 8)))
         (frames (fileBits demo_encrypted))
   \<and> length (rev demo_details_text @ ''fedcba9876543210'') = 78
   \<and> segmentAt (concat (fileBits demo_encrypted)) (Num 0) (Num 70)
       = rev demo_details_text @ ''fedcba98''
   \<and> convertFromEncryptedFile demo_runtime (concat (fileBits demo_encrypted)) demo_key demo_iv
       = Some (Throws (External ''OperationError''))"
proof -
  have n: "Number (toString ''00000010'') = Some (Num 10)"
    by (simp add: toString_def Number_eval)
  have bits: "fileBits demo_encrypted = demo_envelope"
    by (simp add: demo_encrypted_def)
  note r = demo_envelope_rejected
  from throws_at_visited [OF r [THEN conjunct1] r [THEN conjunct2, THEN conjunct1]
      r [THEN conjunct2, THEN conjunct2, THEN conjunct1]
      r [THEN conjunct2, THEN conjunct2, THEN conjunct2]]
  have rejected: "convertFromEncryptedFile demo_runtime (concat demo_envelope) demo_key demo_iv
      = Some (Throws (External ''OperationError''))" .
  have cut: "segmentAt (concat demo_envelope) (Num 0) (Num 70) = rev demo_details_text @ ''fedcba98''"
    by (simp add: segmentAt_clamped demo_envelope_def demo_details_length)
  from n rejected cut show ?thesis
    by (simp add: demo_convert bits demo_envelope_def demo_details_length)
qed

end
